theory Spec2Isabelle
  imports Main "HOL-Library.Word" "HOL-Library.Multiset"
begin

section \<open>The delivery backend of TiDB Lightning (lightning/backend/backend.go)\<close>

text \<open>
  A shallow embedding of \<^verbatim>\<open>backend.go\<close>: the facade \<^verbatim>\<open>Backend\<close> over an
  \<^verbatim>\<open>AbstractBackend\<close>, the engine handles \<^verbatim>\<open>OpenedEngine\<close> and
  \<^verbatim>\<open>ClosedEngine\<close>, the disk quota check and the retry loops.

  The interface \<^verbatim>\<open>AbstractBackend\<close> is a record of state transformers over the
  backend's own state \<open>'s\<close>: a call may fail differently each time it is made. Every
  call of the facade into the backend, and every \<^verbatim>\<open>time.Sleep\<close>, is appended to a
  trace together with what it returned, so that "how often", "in which order" and "never"
  are statements about that trace. Loggers are passive sinks and leave no event.
\<close>

subsection \<open>Values\<close>

text \<open>\<^verbatim>\<open>uuid.UUID\<close> is \<^verbatim>\<open>[16]byte\<close>: 128 bits, read big-endian.\<close>

type_synonym UUID = "128 word"
type_synonym int32 = "32 word"
type_synonym int64 = "64 word"
type_synonym uint64 = "64 word"

text \<open>\<^verbatim>\<open>time.Duration\<close> is an \<^verbatim>\<open>int64\<close> of nanoseconds.\<close>

type_synonym Duration = "64 word"

text \<open>\<^verbatim>\<open>context.Context\<close> is only handed on to the backend.\<close>

datatype Context = Ctx nat

definition maxRetryTimes :: nat where
  "maxRetryTimes = 3"

text \<open>
  A Go \<^verbatim>\<open>error\<close> is \<open>None\<close> for \<^verbatim>\<open>nil\<close>, otherwise an error of the backend
  (\<open>Cause\<close>) or one wrapped by \<^verbatim>\<open>errors.Annotatef\<close>, whose format string and
  arguments are kept as they were passed. \<open>ArgFloat64\<close> is a \<^verbatim>\<open>float64\<close> argument whose
  value is a whole number.
\<close>

datatype fmtarg = ArgString string | ArgInt int | ArgUUID UUID | ArgFloat64 int

datatype 'e error = Cause 'e | Annotated "'e error" string "fmtarg list"

text \<open>\<^verbatim>\<open>errors.Annotatef\<close> (pingcap/errors) returns \<^verbatim>\<open>nil\<close> when the error is \<^verbatim>\<open>nil\<close>.\<close>

definition Annotatef :: "'e error option \<Rightarrow> string \<Rightarrow> fmtarg list \<Rightarrow> 'e error option" where
  "Annotatef err format args =
     (case err of None \<Rightarrow> None | Some e \<Rightarrow> Some (Annotated e format args))"

text \<open>The format strings of the two annotations and of the panic.\<close>

definition write_retry_format :: string where
  "write_retry_format = ''[%s] write rows reach max retry %d and still failed''"

definition import_retry_format :: string where
  "import_retry_format = ''[%s] import reach max retry %d and still failed''"

definition panic_format :: string where
  "panic_format = ''forcing failure due to FailIfEngineCountExceeds: %v - %v >= %d''"

subsection \<open>Engine identity\<close>

text \<open>
  \<^verbatim>\<open>%d\<close> of \<^verbatim>\<open>fmt.Sprintf\<close>: the decimal digits without leading zeros, after a
  minus sign for a negative number.
\<close>

definition digit_char :: "nat \<Rightarrow> char" where
  "digit_char d = ''0123456789'' ! d"

function format_nat :: "nat \<Rightarrow> string" where
  "format_nat n = (if n < 10 then [digit_char n] else format_nat (n div 10) @ [digit_char (n mod 10)])"
  by pat_completeness auto
termination
  by (relation "measure (\<lambda>n. n)") auto

definition format_d :: "int \<Rightarrow> string" where
  "format_d i = (if i < 0 then CHR ''-'' # format_nat (nat (- i)) else format_nat (nat i))"

text \<open>Reading decimal digits back: the inverse of \<open>format_nat\<close>.\<close>

definition digit_val :: "char \<Rightarrow> nat" where
  "digit_val c = of_char c - 48"

definition parse_nat :: "string \<Rightarrow> nat" where
  "parse_nat s = foldl (\<lambda>acc c. 10 * acc + digit_val c) 0 s"

text \<open>\<^verbatim>\<open>fmt.Sprintf("%s:%d", tableName, engineID)\<close>, with \<^verbatim>\<open>engineID\<close> an \<^verbatim>\<open>int32\<close>.\<close>

definition makeTag :: "string \<Rightarrow> int32 \<Rightarrow> string" where
  "makeTag tableName engineID = tableName @ '':'' @ format_d (sint engineID)"

text \<open>The logger made by \<^verbatim>\<open>makeLogger\<close> is the two fields it is given.\<close>

record Logger =
  engineTag :: string
  engineUUID :: UUID

definition makeLogger :: "string \<Rightarrow> UUID \<Rightarrow> Logger" where
  "makeLogger tag u = \<lparr>engineTag = tag, engineUUID = u\<rparr>"

text \<open>\<^verbatim>\<open>uuid.MustParse("d68d6abe-c59e-45d6-ade8-e2b0ceb7bedf")\<close>\<close>

definition engineNamespace :: UUID where
  "engineNamespace = 0xd68d6abec59e45d6ade8e2b0ceb7bedf"

text \<open>
  \<^verbatim>\<open>uuid.NewSHA1\<close> belongs to the library google/uuid: it is the parameter
  \<open>NewSHA1\<close>, a function of the namespace and of the bytes of the tag.
\<close>

definition MakeUUID :: "(UUID \<Rightarrow> string \<Rightarrow> UUID) \<Rightarrow> string \<Rightarrow> int32 \<Rightarrow> string \<times> UUID" where
  "MakeUUID NewSHA1 tableName engineID =
     (let tag = makeTag tableName engineID;
          engineUUID = NewSHA1 engineNamespace tag
      in (tag, engineUUID))"

text \<open>Two different inputs of the hash with one output.\<close>

definition hash_collision :: "(UUID \<Rightarrow> string \<Rightarrow> UUID) \<Rightarrow> string \<Rightarrow> string \<Rightarrow> bool" where
  "hash_collision NewSHA1 x y = (x \<noteq> y \<and> NewSHA1 engineNamespace x = NewSHA1 engineNamespace y)"

subsection \<open>The backend interface and the trace of calls\<close>

record EngineFileSize =
  UUID :: UUID
  Size :: int64
  IsImporting :: bool

record ('s, 'r, 'e) AbstractBackend =
  ab_RetryImportDelay :: "'s \<Rightarrow> Duration \<times> 's"
  ab_MaxChunkSize :: "'s \<Rightarrow> int \<times> 's"
  ab_OpenEngine :: "Context \<Rightarrow> UUID \<Rightarrow> 's \<Rightarrow> 'e error option \<times> 's"
  ab_WriteRows :: "Context \<Rightarrow> UUID \<Rightarrow> string \<Rightarrow> string list \<Rightarrow> uint64 \<Rightarrow> 'r \<Rightarrow> 's
                     \<Rightarrow> 'e error option \<times> 's"
  ab_CloseEngine :: "Context \<Rightarrow> UUID \<Rightarrow> 's \<Rightarrow> 'e error option \<times> 's"
  ab_ImportEngine :: "Context \<Rightarrow> UUID \<Rightarrow> 's \<Rightarrow> 'e error option \<times> 's"
  ab_CleanupEngine :: "Context \<Rightarrow> UUID \<Rightarrow> 's \<Rightarrow> 'e error option \<times> 's"
  ab_FlushEngine :: "UUID \<Rightarrow> 's \<Rightarrow> 'e error option \<times> 's"
  ab_FlushAllEngines :: "'s \<Rightarrow> 'e error option \<times> 's"
  ab_EngineFileSizes :: "'s \<Rightarrow> EngineFileSize list \<times> 's"
  ab_ResetEngine :: "Context \<Rightarrow> UUID \<Rightarrow> 's \<Rightarrow> 'e error option \<times> 's"

datatype ('r, 'e) event =
    CallRetryImportDelay Duration
  | CallMaxChunkSize int
  | CallOpenEngine Context UUID "'e error option"
  | CallWriteRows Context UUID string "string list" uint64 'r "'e error option"
  | CallCloseEngine Context UUID "'e error option"
  | CallImportEngine Context UUID "'e error option"
  | CallCleanupEngine Context UUID "'e error option"
  | CallFlushEngine UUID "'e error option"
  | CallFlushAllEngines "'e error option"
  | CallEngineFileSizes "EngineFileSize list"
  | CallResetEngine Context UUID "'e error option"
  | Sleep Duration

text \<open>
  The state of the process: the backend's state, the trace, and the two counters
  \<^verbatim>\<open>metric.ImporterEngineCounter\<close> with the labels "open" and "closed". This file
  only ever calls \<^verbatim>\<open>Inc()\<close> on them, so each is kept as the number of its
  \<^verbatim>\<open>Inc()\<close> calls, a \<open>nat\<close>; what the code sees of a counter is the \<^verbatim>\<open>float64\<close>
  that \<open>ReadCounter\<close> below makes of that number.
\<close>

record ('s, 'r, 'e) world =
  bstate :: 's
  trace :: "('r, 'e) event list"
  openCounter :: nat
  closedCounter :: nat

definition call_RetryImportDelay ::
  "('s, 'r, 'e) AbstractBackend \<Rightarrow> ('s, 'r, 'e) world \<Rightarrow> Duration \<times> ('s, 'r, 'e) world" where
  "call_RetryImportDelay ab w =
     (case ab_RetryImportDelay ab (bstate w) of
        (d, s') \<Rightarrow> (d, w\<lparr>bstate := s', trace := trace w @ [CallRetryImportDelay d]\<rparr>))"

definition call_MaxChunkSize ::
  "('s, 'r, 'e) AbstractBackend \<Rightarrow> ('s, 'r, 'e) world \<Rightarrow> int \<times> ('s, 'r, 'e) world" where
  "call_MaxChunkSize ab w =
     (case ab_MaxChunkSize ab (bstate w) of
        (n, s') \<Rightarrow> (n, w\<lparr>bstate := s', trace := trace w @ [CallMaxChunkSize n]\<rparr>))"

definition call_OpenEngine ::
  "('s, 'r, 'e) AbstractBackend \<Rightarrow> Context \<Rightarrow> UUID \<Rightarrow> ('s, 'r, 'e) world
     \<Rightarrow> 'e error option \<times> ('s, 'r, 'e) world" where
  "call_OpenEngine ab ctx u w =
     (case ab_OpenEngine ab ctx u (bstate w) of
        (err, s') \<Rightarrow> (err, w\<lparr>bstate := s', trace := trace w @ [CallOpenEngine ctx u err]\<rparr>))"

definition call_WriteRows ::
  "('s, 'r, 'e) AbstractBackend \<Rightarrow> Context \<Rightarrow> UUID \<Rightarrow> string \<Rightarrow> string list \<Rightarrow> uint64 \<Rightarrow> 'r
     \<Rightarrow> ('s, 'r, 'e) world \<Rightarrow> 'e error option \<times> ('s, 'r, 'e) world" where
  "call_WriteRows ab ctx u tbl cols commitTS r w =
     (case ab_WriteRows ab ctx u tbl cols commitTS r (bstate w) of
        (err, s') \<Rightarrow>
          (err, w\<lparr>bstate := s', trace := trace w @ [CallWriteRows ctx u tbl cols commitTS r err]\<rparr>))"

definition call_CloseEngine ::
  "('s, 'r, 'e) AbstractBackend \<Rightarrow> Context \<Rightarrow> UUID \<Rightarrow> ('s, 'r, 'e) world
     \<Rightarrow> 'e error option \<times> ('s, 'r, 'e) world" where
  "call_CloseEngine ab ctx u w =
     (case ab_CloseEngine ab ctx u (bstate w) of
        (err, s') \<Rightarrow> (err, w\<lparr>bstate := s', trace := trace w @ [CallCloseEngine ctx u err]\<rparr>))"

definition call_ImportEngine ::
  "('s, 'r, 'e) AbstractBackend \<Rightarrow> Context \<Rightarrow> UUID \<Rightarrow> ('s, 'r, 'e) world
     \<Rightarrow> 'e error option \<times> ('s, 'r, 'e) world" where
  "call_ImportEngine ab ctx u w =
     (case ab_ImportEngine ab ctx u (bstate w) of
        (err, s') \<Rightarrow> (err, w\<lparr>bstate := s', trace := trace w @ [CallImportEngine ctx u err]\<rparr>))"

definition call_CleanupEngine ::
  "('s, 'r, 'e) AbstractBackend \<Rightarrow> Context \<Rightarrow> UUID \<Rightarrow> ('s, 'r, 'e) world
     \<Rightarrow> 'e error option \<times> ('s, 'r, 'e) world" where
  "call_CleanupEngine ab ctx u w =
     (case ab_CleanupEngine ab ctx u (bstate w) of
        (err, s') \<Rightarrow> (err, w\<lparr>bstate := s', trace := trace w @ [CallCleanupEngine ctx u err]\<rparr>))"

definition call_FlushEngine ::
  "('s, 'r, 'e) AbstractBackend \<Rightarrow> UUID \<Rightarrow> ('s, 'r, 'e) world
     \<Rightarrow> 'e error option \<times> ('s, 'r, 'e) world" where
  "call_FlushEngine ab u w =
     (case ab_FlushEngine ab u (bstate w) of
        (err, s') \<Rightarrow> (err, w\<lparr>bstate := s', trace := trace w @ [CallFlushEngine u err]\<rparr>))"

definition call_FlushAllEngines ::
  "('s, 'r, 'e) AbstractBackend \<Rightarrow> ('s, 'r, 'e) world \<Rightarrow> 'e error option \<times> ('s, 'r, 'e) world" where
  "call_FlushAllEngines ab w =
     (case ab_FlushAllEngines ab (bstate w) of
        (err, s') \<Rightarrow> (err, w\<lparr>bstate := s', trace := trace w @ [CallFlushAllEngines err]\<rparr>))"

definition call_EngineFileSizes ::
  "('s, 'r, 'e) AbstractBackend \<Rightarrow> ('s, 'r, 'e) world
     \<Rightarrow> EngineFileSize list \<times> ('s, 'r, 'e) world" where
  "call_EngineFileSizes ab w =
     (case ab_EngineFileSizes ab (bstate w) of
        (sizes, s') \<Rightarrow> (sizes, w\<lparr>bstate := s', trace := trace w @ [CallEngineFileSizes sizes]\<rparr>))"

definition call_ResetEngine ::
  "('s, 'r, 'e) AbstractBackend \<Rightarrow> Context \<Rightarrow> UUID \<Rightarrow> ('s, 'r, 'e) world
     \<Rightarrow> 'e error option \<times> ('s, 'r, 'e) world" where
  "call_ResetEngine ab ctx u w =
     (case ab_ResetEngine ab ctx u (bstate w) of
        (err, s') \<Rightarrow> (err, w\<lparr>bstate := s', trace := trace w @ [CallResetEngine ctx u err]\<rparr>))"

text \<open>\<^verbatim>\<open>time.Sleep(d)\<close>\<close>

definition time_Sleep :: "Duration \<Rightarrow> ('s, 'r, 'e) world \<Rightarrow> ('s, 'r, 'e) world" where
  "time_Sleep d w = w\<lparr>trace := trace w @ [Sleep d]\<rparr>"

subsection \<open>Backend, engine, OpenedEngine, ClosedEngine\<close>

record ('s, 'r, 'e) Backend =
  abstract :: "('s, 'r, 'e) AbstractBackend"

record ('s, 'r, 'e) engine =
  backend :: "('s, 'r, 'e) AbstractBackend"
  logger :: Logger
  uuid :: UUID

record ('s, 'r, 'e) OpenedEngine =
  opened_engine :: "('s, 'r, 'e) engine"
  tableName :: string
  ts :: uint64

record ('s, 'r, 'e) ClosedEngine =
  closed_engine :: "('s, 'r, 'e) engine"

definition MakeBackend :: "('s, 'r, 'e) AbstractBackend \<Rightarrow> ('s, 'r, 'e) Backend" where
  "MakeBackend ab = \<lparr>abstract = ab\<rparr>"

definition FlushAll ::
  "('s, 'r, 'e) Backend \<Rightarrow> ('s, 'r, 'e) world \<Rightarrow> 'e error option \<times> ('s, 'r, 'e) world" where
  "FlushAll be w = call_FlushAllEngines (abstract be) w"

subsection \<open>CheckDiskQuota\<close>

text \<open>The \<^verbatim>\<open>less\<close> closure handed to \<^verbatim>\<open>sort.Slice\<close>; \<^verbatim>\<open>Size\<close> is a signed \<^verbatim>\<open>int64\<close>.\<close>

definition CheckDiskQuota_less :: "EngineFileSize \<Rightarrow> EngineFileSize \<Rightarrow> bool" where
  "CheckDiskQuota_less a b =
     (if IsImporting a \<noteq> IsImporting b then IsImporting a else Size a <s Size b)"

text \<open>
  \<^verbatim>\<open>sort.Slice\<close> belongs to Go's standard library. It is not stable, and which of
  several records with one key comes first depends on the library's algorithm. It is the
  parameter \<open>sort_Slice\<close>; what the library promises for a call is \<open>sort_Slice_sorts\<close>:
  the result is a permutation of the slice in which no later element is \<^verbatim>\<open>less\<close> than an
  earlier one.
\<close>

definition sort_Slice_sorts ::
  "(('a \<Rightarrow> 'a \<Rightarrow> bool) \<Rightarrow> 'a list \<Rightarrow> 'a list) \<Rightarrow> ('a \<Rightarrow> 'a \<Rightarrow> bool) \<Rightarrow> 'a list \<Rightarrow> bool" where
  "sort_Slice_sorts sort_Slice lt xs =
     (mset (sort_Slice lt xs) = mset xs \<and> sorted_wrt (\<lambda>a b. \<not> lt b a) (sort_Slice lt xs))"

text \<open>An insertion sort, one function that keeps the promise; it runs in the examples.\<close>

fun insert_by :: "('a \<Rightarrow> 'a \<Rightarrow> bool) \<Rightarrow> 'a \<Rightarrow> 'a list \<Rightarrow> 'a list" where
  "insert_by lt x [] = [x]"
| "insert_by lt x (y # ys) = (if lt x y then x # y # ys else y # insert_by lt x ys)"

fun insertion_sort :: "('a \<Rightarrow> 'a \<Rightarrow> bool) \<Rightarrow> 'a list \<Rightarrow> 'a list" where
  "insertion_sort lt [] = []"
| "insertion_sort lt (x # xs) = insert_by lt x (insertion_sort lt xs)"

text \<open>
  The \<^verbatim>\<open>for ... range sizes\<close> loop, with the three named results as the accumulator.
  \<^verbatim>\<open>totalSize\<close> is an \<^verbatim>\<open>int64\<close>: the sum wraps, the comparison is signed.
  \<^verbatim>\<open>inProgressLargeEngines\<close> is an \<^verbatim>\<open>int\<close> that counts elements of a slice and
  cannot overflow.
\<close>

fun CheckDiskQuota_loop ::
  "int64 \<Rightarrow> EngineFileSize list \<Rightarrow> UUID list \<times> nat \<times> int64 \<Rightarrow> UUID list \<times> nat \<times> int64" where
  "CheckDiskQuota_loop quota [] acc = acc"
| "CheckDiskQuota_loop quota (sz # sizes) (largeEngines, inProgressLargeEngines, totalSize) =
     (let totalSize = totalSize + Size sz in
      if quota <s totalSize then
        (if IsImporting sz
         then CheckDiskQuota_loop quota sizes (largeEngines, inProgressLargeEngines + 1, totalSize)
         else CheckDiskQuota_loop quota sizes
                (largeEngines @ [UUID sz], inProgressLargeEngines, totalSize))
      else CheckDiskQuota_loop quota sizes (largeEngines, inProgressLargeEngines, totalSize))"

definition CheckDiskQuota ::
  "((EngineFileSize \<Rightarrow> EngineFileSize \<Rightarrow> bool) \<Rightarrow> EngineFileSize list \<Rightarrow> EngineFileSize list)
     \<Rightarrow> ('s, 'r, 'e) Backend \<Rightarrow> int64 \<Rightarrow> ('s, 'r, 'e) world
     \<Rightarrow> (UUID list \<times> nat \<times> int64) \<times> ('s, 'r, 'e) world" where
  "CheckDiskQuota sort_Slice be quota w =
     (case call_EngineFileSizes (abstract be) w of
        (sizes, w') \<Rightarrow>
          (CheckDiskQuota_loop quota (sort_Slice CheckDiskQuota_less sizes) ([], 0, 0), w'))"

subsection \<open>UnsafeCloseEngine, UnsafeCloseEngineWithUUID, Close\<close>

text \<open>A pointer result is \<open>None\<close> for \<^verbatim>\<open>nil\<close>.\<close>

definition unsafeClose ::
  "('s, 'r, 'e) engine \<Rightarrow> Context \<Rightarrow> ('s, 'r, 'e) world
     \<Rightarrow> (('s, 'r, 'e) ClosedEngine option \<times> 'e error option) \<times> ('s, 'r, 'e) world" where
  "unsafeClose en ctx w =
     (case call_CloseEngine (backend en) ctx (uuid en) w of
        (err, w') \<Rightarrow>
          if err \<noteq> None then ((None, err), w')
          else ((Some \<lparr>closed_engine = en\<rparr>, None), w'))"

definition UnsafeCloseEngineWithUUID ::
  "('s, 'r, 'e) Backend \<Rightarrow> Context \<Rightarrow> string \<Rightarrow> UUID \<Rightarrow> ('s, 'r, 'e) world
     \<Rightarrow> (('s, 'r, 'e) ClosedEngine option \<times> 'e error option) \<times> ('s, 'r, 'e) world" where
  "UnsafeCloseEngineWithUUID be ctx tag u w =
     unsafeClose \<lparr>backend = abstract be, logger = makeLogger tag u, uuid = u\<rparr> ctx w"

definition UnsafeCloseEngine ::
  "(UUID \<Rightarrow> string \<Rightarrow> UUID) \<Rightarrow> ('s, 'r, 'e) Backend \<Rightarrow> Context \<Rightarrow> string \<Rightarrow> int32
     \<Rightarrow> ('s, 'r, 'e) world
     \<Rightarrow> (('s, 'r, 'e) ClosedEngine option \<times> 'e error option) \<times> ('s, 'r, 'e) world" where
  "UnsafeCloseEngine NewSHA1 be ctx tbl engineID w =
     (case MakeUUID NewSHA1 tbl engineID of
        (tag, u) \<Rightarrow> UnsafeCloseEngineWithUUID be ctx tag u w)"

definition Close ::
  "('s, 'r, 'e) OpenedEngine \<Rightarrow> Context \<Rightarrow> ('s, 'r, 'e) world
     \<Rightarrow> (('s, 'r, 'e) ClosedEngine option \<times> 'e error option) \<times> ('s, 'r, 'e) world" where
  "Close eng ctx w =
     (case unsafeClose (opened_engine eng) ctx w of
        ((closedEngine, err), w') \<Rightarrow>
          ((closedEngine, err),
           if err = None then w'\<lparr>closedCounter := closedCounter w' + 1\<rparr> else w'))"

definition Flush ::
  "('s, 'r, 'e) OpenedEngine \<Rightarrow> ('s, 'r, 'e) world \<Rightarrow> 'e error option \<times> ('s, 'r, 'e) world" where
  "Flush eng w = call_FlushEngine (backend (opened_engine eng)) (uuid (opened_engine eng)) w"

subsection \<open>OpenedEngine.WriteRows\<close>

text \<open>
  \<^verbatim>\<open>common.IsRetryableError\<close> (package lightning/common) is the parameter
  \<open>IsRetryableError\<close>, and the method \<^verbatim>\<open>SplitIntoChunks\<close> of the interface
  \<^verbatim>\<open>Rows\<close> is the parameter \<open>SplitIntoChunks\<close>.

  The inner loop \<^verbatim>\<open>for i := 0; i < maxRetryTimes; i++\<close> leaves in one of three ways:
  \<^verbatim>\<open>continue outside\<close>, \<^verbatim>\<open>return err\<close>, or its condition fails. It also hands
  back the variable \<^verbatim>\<open>err\<close>, which is declared outside both loops.
\<close>

datatype 'e loop_exit = ContinueOutside | Return "'e error option" | LoopEnd

function WriteRows_retry ::
  "('e error option \<Rightarrow> bool) \<Rightarrow> ('s, 'r, 'e) OpenedEngine \<Rightarrow> Context \<Rightarrow> string list \<Rightarrow> 'r
     \<Rightarrow> nat \<Rightarrow> 'e error option \<Rightarrow> ('s, 'r, 'e) world
     \<Rightarrow> 'e loop_exit \<times> 'e error option \<times> ('s, 'r, 'e) world" where
  "WriteRows_retry IsRetryableError eng ctx columnNames r i err w =
     (if i < maxRetryTimes then
        (case call_WriteRows (backend (opened_engine eng)) ctx (uuid (opened_engine eng))
                (tableName eng) columnNames (ts eng) r w of
           (err', w') \<Rightarrow>
             if err' = None then (ContinueOutside, err', w')
             else if IsRetryableError err'
             then WriteRows_retry IsRetryableError eng ctx columnNames r (i + 1) err' w'
             else (Return err', err', w'))
      else (LoopEnd, err, w))"
  by pat_completeness auto
termination
  by (relation "measure (\<lambda>(R, eng, ctx, columnNames, r, i, err, w). maxRetryTimes - i)") auto

fun WriteRows_outside ::
  "('e error option \<Rightarrow> bool) \<Rightarrow> ('s, 'r, 'e) OpenedEngine \<Rightarrow> Context \<Rightarrow> string list \<Rightarrow> 'r list
     \<Rightarrow> 'e error option \<Rightarrow> ('s, 'r, 'e) world \<Rightarrow> 'e error option \<times> ('s, 'r, 'e) world" where
  "WriteRows_outside IsRetryableError eng ctx columnNames [] err w = (None, w)"
| "WriteRows_outside IsRetryableError eng ctx columnNames (r # rs) err w =
     (case WriteRows_retry IsRetryableError eng ctx columnNames r 0 err w of
        (ContinueOutside, err', w') \<Rightarrow>
          WriteRows_outside IsRetryableError eng ctx columnNames rs err' w'
      | (Return e, err', w') \<Rightarrow> (e, w')
      | (LoopEnd, err', w') \<Rightarrow>
          (Annotatef err' write_retry_format
             [ArgString (tableName eng), ArgInt (int maxRetryTimes)], w'))"

definition WriteRows ::
  "('e error option \<Rightarrow> bool) \<Rightarrow> ('r \<Rightarrow> int \<Rightarrow> 'r list) \<Rightarrow> ('s, 'r, 'e) OpenedEngine \<Rightarrow> Context
     \<Rightarrow> string list \<Rightarrow> 'r \<Rightarrow> ('s, 'r, 'e) world \<Rightarrow> 'e error option \<times> ('s, 'r, 'e) world" where
  "WriteRows IsRetryableError SplitIntoChunks eng ctx columnNames rows w =
     (case call_MaxChunkSize (backend (opened_engine eng)) w of
        (n, w') \<Rightarrow>
          WriteRows_outside IsRetryableError eng ctx columnNames (SplitIntoChunks rows n) None w')"

subsection \<open>ClosedEngine.Import, ClosedEngine.Cleanup\<close>

text \<open>The loop of \<^verbatim>\<open>Import\<close>, and after it the \<^verbatim>\<open>return\<close> that follows the loop.\<close>

function Import_loop ::
  "('e error option \<Rightarrow> bool) \<Rightarrow> ('s, 'r, 'e) ClosedEngine \<Rightarrow> Context \<Rightarrow> nat \<Rightarrow> 'e error option
     \<Rightarrow> ('s, 'r, 'e) world \<Rightarrow> 'e error option \<times> ('s, 'r, 'e) world" where
  "Import_loop IsRetryableError eng ctx i err w =
     (if i < maxRetryTimes then
        (case call_ImportEngine (backend (closed_engine eng)) ctx (uuid (closed_engine eng)) w of
           (err', w1) \<Rightarrow>
             if \<not> IsRetryableError err' then (err', w1)
             else (case call_RetryImportDelay (backend (closed_engine eng)) w1 of
                     (d, w2) \<Rightarrow>
                       Import_loop IsRetryableError eng ctx (i + 1) err' (time_Sleep d w2)))
      else (Annotatef err import_retry_format
              [ArgUUID (uuid (closed_engine eng)), ArgInt (int maxRetryTimes)], w))"
  by pat_completeness auto
termination
  by (relation "measure (\<lambda>(R, eng, ctx, i, err, w). maxRetryTimes - i)") auto

definition Import ::
  "('e error option \<Rightarrow> bool) \<Rightarrow> ('s, 'r, 'e) ClosedEngine \<Rightarrow> Context \<Rightarrow> ('s, 'r, 'e) world
     \<Rightarrow> 'e error option \<times> ('s, 'r, 'e) world" where
  "Import IsRetryableError eng ctx w = Import_loop IsRetryableError eng ctx 0 None w"

definition Cleanup ::
  "('s, 'r, 'e) ClosedEngine \<Rightarrow> Context \<Rightarrow> ('s, 'r, 'e) world
     \<Rightarrow> 'e error option \<times> ('s, 'r, 'e) world" where
  "Cleanup eng ctx w =
     call_CleanupEngine (backend (closed_engine eng)) ctx (uuid (closed_engine eng)) w"

subsection \<open>UnsafeImportAndReset\<close>

definition UnsafeImportAndReset ::
  "('e error option \<Rightarrow> bool) \<Rightarrow> ('s, 'r, 'e) Backend \<Rightarrow> Context \<Rightarrow> UUID \<Rightarrow> ('s, 'r, 'e) world
     \<Rightarrow> 'e error option \<times> ('s, 'r, 'e) world" where
  "UnsafeImportAndReset IsRetryableError be ctx u w =
     (let closedEngine =
            \<lparr>closed_engine =
               \<lparr>backend = abstract be, logger = makeLogger ''<import-and-reset>'' u, uuid = u\<rparr>\<rparr>
      in case Import IsRetryableError closedEngine ctx w of
           (err, w') \<Rightarrow>
             if err \<noteq> None then (err, w')
             else call_ResetEngine (abstract be) ctx u w')"

subsection \<open>OpenEngine and the failpoint FailIfEngineCountExceeds\<close>

text \<open>
  The failpoint compares \<^verbatim>\<open>float64\<close> values. Every value it meets is a whole number,
  so a \<^verbatim>\<open>float64\<close> is kept as the \<open>int\<close> it denotes. A \<^verbatim>\<open>float64\<close> has a
  significand of 53 bits: a whole number of magnitude at most \<open>2^53\<close> is a
  \<^verbatim>\<open>float64\<close> as it is, and a larger one is rounded to the nearest whole number that has
  53 significant bits, a tie going to the one whose last significant bit is 0.
  \<open>bit_length n\<close> is the number of binary digits of \<open>n\<close>.
\<close>

function bit_length :: "int \<Rightarrow> nat" where
  "bit_length n = (if n \<le> 0 then 0 else Suc (bit_length (n div 2)))"
  by pat_completeness auto
termination
  by (relation "measure nat") auto

definition round_float64 :: "int \<Rightarrow> int" where
  "round_float64 n =
     (if n \<le> 2 ^ 53 then n
      else
        let e = bit_length n - 53;
            q = n div 2 ^ e;
            r = n mod 2 ^ e;
            half = 2 ^ (e - 1)
        in (if half < r \<or> (r = half \<and> odd q) then q + 1 else q) * 2 ^ e)"

text \<open>
  Go's conversion \<^verbatim>\<open>float64(k)\<close> of an integer, and the \<^verbatim>\<open>float64\<close> subtraction
  \<^verbatim>\<open>a - b\<close> of two whole values: the exact difference, rounded.
\<close>

definition float64 :: "int \<Rightarrow> int" where
  "float64 k = (if k < 0 then - round_float64 (- k) else round_float64 k)"

definition float64_sub :: "int \<Rightarrow> int \<Rightarrow> int" where
  "float64_sub a b = float64 (a - b)"

text \<open>
  Modelled from the spec: \<^verbatim>\<open>metric.ReadCounter\<close> (package lightning/metric) is not
  under src/. It returns the value of a Prometheus counter as a \<^verbatim>\<open>float64\<close>; for a
  counter that has only been incremented by \<^verbatim>\<open>Inc()\<close> that is the \<^verbatim>\<open>float64\<close> of the
  number of increments.
\<close>

definition ReadCounter :: "nat \<Rightarrow> int" where
  "ReadCounter c = float64 (int c)"

text \<open>
  The closure of \<^verbatim>\<open>failpoint.Inject("FailIfEngineCountExceeds", ...)\<close>: whether it
  panics, given the injected value. The two counters are read after
  \<^verbatim>\<open>openCounter.Inc()\<close>, and the comparison is
  \<^verbatim>\<open>openCount-closedCount > float64(injectValue)\<close> on \<^verbatim>\<open>float64\<close> values.
\<close>

definition FailIfEngineCountExceeds :: "int \<Rightarrow> ('s, 'r, 'e) world \<Rightarrow> bool" where
  "FailIfEngineCountExceeds injectValue w =
     (let openCount = ReadCounter (openCounter w);
          closedCount = ReadCounter (closedCounter w)
      in float64_sub openCount closedCount > float64 injectValue)"

text \<open>A call returns or panics; the panic keeps its format string and arguments.\<close>

datatype 'a outcome = Returns 'a | Panics string "fmtarg list"

text \<open>
  \<open>failpoint\<close> is \<open>None\<close> when the failpoint is not enabled, and the injected
  \<^verbatim>\<open>int\<close> otherwise. \<open>composedTS\<close> is the value of
  \<^verbatim>\<open>oracle.ComposeTS(time.Now().Unix()*1000, 0)\<close> at the call.
\<close>

definition OpenEngine ::
  "(UUID \<Rightarrow> string \<Rightarrow> UUID) \<Rightarrow> int option \<Rightarrow> uint64 \<Rightarrow> ('s, 'r, 'e) Backend \<Rightarrow> Context \<Rightarrow> string
     \<Rightarrow> int32 \<Rightarrow> ('s, 'r, 'e) world
     \<Rightarrow> (('s, 'r, 'e) OpenedEngine option \<times> 'e error option) outcome \<times> ('s, 'r, 'e) world" where
  "OpenEngine NewSHA1 failpoint composedTS be ctx tbl engineID w =
     (case MakeUUID NewSHA1 tbl engineID of
        (tag, u) \<Rightarrow>
          (case call_OpenEngine (abstract be) ctx u w of
             (err, w1) \<Rightarrow>
               if err \<noteq> None then (Returns (None, err), w1)
               else
                 let w2 = (w1\<lparr>openCounter := openCounter w1 + 1\<rparr>);
                     opened =
                       (\<lparr>opened_engine =
                           \<lparr>backend = abstract be, logger = makeLogger tag u, uuid = u\<rparr>,
                         tableName = tbl, ts = composedTS\<rparr>)
                 in (case failpoint of
                      None \<Rightarrow> (Returns (Some opened, None), w2)
                    | Some injectValue \<Rightarrow>
                        if FailIfEngineCountExceeds injectValue w2
                        then (Panics panic_format
                                [ArgFloat64 (ReadCounter (openCounter w2)),
                                 ArgFloat64 (ReadCounter (closedCounter w2)),
                                 ArgInt injectValue], w2)
                        else (Returns (Some opened, None), w2))))"

subsection \<open>A backend for the examples\<close>

text \<open>
  A backend in memory. Its state is a script, the results its next calls will return
  (\<^verbatim>\<open>nil\<close> once the script is used up), and the engines that are open: an engine is
  open from a successful \<^verbatim>\<open>OpenEngine\<close> to a successful \<^verbatim>\<open>CloseEngine\<close>. Its
  engine sizes are fixed.
\<close>

datatype fault = Transient | Permanent

record fake_state =
  script :: "fault error option list"
  open_engines :: "UUID list"

definition answer :: "fake_state \<Rightarrow> fault error option \<times> fake_state" where
  "answer s = (case script s of [] \<Rightarrow> (None, s) | x # xs \<Rightarrow> (x, s\<lparr>script := xs\<rparr>))"

definition fake_open :: "UUID \<Rightarrow> fake_state \<Rightarrow> fault error option \<times> fake_state" where
  "fake_open u s =
     (case answer s of
        (err, s') \<Rightarrow> (err, if err = None then s'\<lparr>open_engines := u # open_engines s'\<rparr> else s'))"

definition fake_close :: "UUID \<Rightarrow> fake_state \<Rightarrow> fault error option \<times> fake_state" where
  "fake_close u s =
     (case answer s of
        (err, s') \<Rightarrow>
          (err, if err = None then s'\<lparr>open_engines := removeAll u (open_engines s')\<rparr> else s'))"

definition fake_backend ::
  "EngineFileSize list \<Rightarrow> (fake_state, nat list, fault) AbstractBackend" where
  "fake_backend sizes =
     \<lparr>ab_RetryImportDelay = (\<lambda>s. (1000, s)),
      ab_MaxChunkSize = (\<lambda>s. (2, s)),
      ab_OpenEngine = (\<lambda>ctx. fake_open),
      ab_WriteRows = (\<lambda>ctx u tbl cols commitTS r. answer),
      ab_CloseEngine = (\<lambda>ctx. fake_close),
      ab_ImportEngine = (\<lambda>ctx u. answer),
      ab_CleanupEngine = (\<lambda>ctx u. answer),
      ab_FlushEngine = (\<lambda>u. answer),
      ab_FlushAllEngines = answer,
      ab_EngineFileSizes = (\<lambda>s. (sizes, s)),
      ab_ResetEngine = (\<lambda>ctx u. answer)\<rparr>"

text \<open>The process before any call, with engine 7 open in the backend.\<close>

definition fresh :: "fault error option list \<Rightarrow> (fake_state, nat list, fault) world" where
  "fresh results =
     \<lparr>bstate = \<lparr>script = results, open_engines = [7]\<rparr>, trace = [],
      openCounter = 0, closedCounter = 0\<rparr>"

definition engine7 :: "(fake_state, nat list, fault) engine" where
  "engine7 = \<lparr>backend = fake_backend [], logger = makeLogger ''db.t:0'' 7, uuid = 7\<rparr>"

definition opened7 :: "(fake_state, nat list, fault) OpenedEngine" where
  "opened7 = \<lparr>opened_engine = engine7, tableName = ''db.t'', ts = 99\<rparr>"

definition closed7 :: "(fake_state, nat list, fault) ClosedEngine" where
  "closed7 = \<lparr>closed_engine = engine7\<rparr>"

text \<open>The errors the examples retry: a transient fault, also when annotated.\<close>

fun is_transient :: "fault error \<Rightarrow> bool" where
  "is_transient (Cause c) = (c = Transient)"
| "is_transient (Annotated e format args) = is_transient e"

definition retry_transient :: "fault error option \<Rightarrow> bool" where
  "retry_transient err = (case err of None \<Rightarrow> False | Some e \<Rightarrow> is_transient e)"

text \<open>Rows are lists of numbers; a chunk holds at most \<open>n\<close> of them.\<close>

fun chunks_of :: "nat list \<Rightarrow> int \<Rightarrow> nat list list" where
  "chunks_of [] n = []"
| "chunks_of (x # xs) n =
     (if n \<le> 0 then [x # xs]
      else take (nat n) (x # xs) # chunks_of (drop (nat n) (x # xs)) n)"

text \<open>A hash for the examples: the sum of the namespace and the bytes.\<close>

definition sum_hash :: "UUID \<Rightarrow> string \<Rightarrow> UUID" where
  "sum_hash ns bytes = ns + of_nat (sum_list (map of_char bytes))"

subsection \<open>Reading the trace and the order of the quota check\<close>

fun is_CloseEngine :: "('r, 'e) event \<Rightarrow> bool" where
  "is_CloseEngine (CallCloseEngine ctx u err) = True"
| "is_CloseEngine ev = False"

fun is_ResetEngine :: "('r, 'e) event \<Rightarrow> bool" where
  "is_ResetEngine (CallResetEngine ctx u err) = True"
| "is_ResetEngine ev = False"

fun is_WriteRows :: "('r, 'e) event \<Rightarrow> bool" where
  "is_WriteRows (CallWriteRows ctx u tbl cols commitTS r err) = True"
| "is_WriteRows ev = False"

text \<open>
  What one attempt of \<^verbatim>\<open>Import\<close> leaves in the trace, given the result of
  \<^verbatim>\<open>ImportEngine\<close> and the delay the backend declares: the call alone when the result
  is not retryable, the call, the question for the delay and the sleep when it is.
\<close>

definition import_attempt ::
  "('e error option \<Rightarrow> bool) \<Rightarrow> Context \<Rightarrow> UUID \<Rightarrow> 'e error option \<times> Duration
     \<Rightarrow> ('r, 'e) event list" where
  "import_attempt IsRetryableError ctx u a =
     (if IsRetryableError (fst a)
      then [CallImportEngine ctx u (fst a), CallRetryImportDelay (snd a), Sleep (snd a)]
      else [CallImportEngine ctx u (fst a)])"

text \<open>The attempts on one chunk: one call of the backend's \<^verbatim>\<open>WriteRows\<close> for each result.\<close>

definition write_attempts ::
  "('s, 'r, 'e) OpenedEngine \<Rightarrow> Context \<Rightarrow> string list \<Rightarrow> 'r \<times> 'e error option list
     \<Rightarrow> ('r, 'e) event list" where
  "write_attempts eng ctx columnNames c =
     map (CallWriteRows ctx (uuid (opened_engine eng)) (tableName eng) columnNames (ts eng) (fst c))
       (snd c)"

text \<open>A retryable failure: an error, and one that \<^verbatim>\<open>IsRetryableError\<close> accepts.\<close>

definition retryable_failure :: "('e error option \<Rightarrow> bool) \<Rightarrow> 'e error option \<Rightarrow> bool" where
  "retryable_failure IsRetryableError err = (err \<noteq> None \<and> IsRetryableError err)"

text \<open>\<^verbatim>\<open>totalSize\<close> once the record at index \<open>k\<close> has been added.\<close>

definition running_total :: "EngineFileSize list \<Rightarrow> nat \<Rightarrow> int64" where
  "running_total sizes k = sum_list (map Size (take (Suc k) sizes))"

text \<open>The records at which the running total is above the quota, in the order of the list.\<close>

definition excess :: "int64 \<Rightarrow> EngineFileSize list \<Rightarrow> EngineFileSize list" where
  "excess quota sizes =
     map (\<lambda>k. sizes ! k) (filter (\<lambda>k. quota <s running_total sizes k) [0..<length sizes])"

text \<open>
  Importing records before all others, and ascending by signed size among the importing
  and among the others.
\<close>

definition importing_first :: "EngineFileSize list \<Rightarrow> bool" where
  "importing_first sizes =
     sorted_wrt (\<lambda>a b. (IsImporting b \<longrightarrow> IsImporting a) \<and>
                        (IsImporting a = IsImporting b \<longrightarrow> Size a \<le>s Size b)) sizes"

text \<open>The order the specification describes: importing records after all others.\<close>

definition importing_last :: "EngineFileSize list \<Rightarrow> bool" where
  "importing_last sizes =
     sorted_wrt (\<lambda>a b. (IsImporting a \<longrightarrow> IsImporting b) \<and>
                        (IsImporting a = IsImporting b \<longrightarrow> Size a \<le>s Size b)) sizes"

text \<open>
  What the results of the backend's \<^verbatim>\<open>WriteRows\<close> must look like, chunk by chunk:
  \<open>results\<close> holds, for each chunk that was attempted, the results of its attempts in
  order. Chunks are attempted in order without gaps; a chunk has between one and three
  attempts; an attempt is repeated only after a retryable failure; the next chunk is
  started only after a success. The call returns \<^verbatim>\<open>nil\<close> when the last attempt of
  the last chunk succeeded, the error itself when it is not retryable, and the error
  annotated with the table name and the bound after three retryable failures.
\<close>

definition write_results_conform ::
  "('e error option \<Rightarrow> bool) \<Rightarrow> string \<Rightarrow> 'r list \<Rightarrow> 'e error option list list \<Rightarrow> 'e error option
     \<Rightarrow> bool" where
  "write_results_conform IsRetryableError tbl chunks results res =
     (length results \<le> length chunks \<and>
      (\<forall>errs\<in>set results.
         errs \<noteq> [] \<and> length errs \<le> 3 \<and>
         (\<forall>e\<in>set (butlast errs). retryable_failure IsRetryableError e)) \<and>
      (\<forall>errs\<in>set (butlast results). last errs = None) \<and>
      (if results = [] then chunks = [] \<and> res = None
       else if last (last results) = None then length results = length chunks \<and> res = None
       else if IsRetryableError (last (last results))
       then length (last results) = 3 \<and>
            res = Annotatef (last (last results)) write_retry_format [ArgString tbl, ArgInt 3]
       else res = last (last results)))"

text \<open>
  What the attempts of \<^verbatim>\<open>Import\<close> must look like: between one and three; every
  attempt but the last had a retryable result; a last result that is not retryable is
  returned as it is; a last result that is retryable is the third, and is returned
  annotated with the engine's UUID and the bound.
\<close>

definition import_results_conform ::
  "('e error option \<Rightarrow> bool) \<Rightarrow> UUID \<Rightarrow> ('e error option \<times> Duration) list \<Rightarrow> 'e error option
     \<Rightarrow> bool" where
  "import_results_conform IsRetryableError u attempts res =
     (attempts \<noteq> [] \<and> length attempts \<le> 3 \<and>
      (\<forall>a\<in>set (butlast attempts). IsRetryableError (fst a)) \<and>
      (if IsRetryableError (fst (last attempts))
       then length attempts = 3 \<and>
            res = Annotatef (fst (last attempts)) import_retry_format [ArgUUID u, ArgInt 3]
       else res = fst (last attempts)))"

text \<open>
  An operation of the backend keeps a property of the backend's state: whenever the
  property holds before the call, it holds after it.
\<close>

definition keeps :: "('s \<Rightarrow> bool) \<Rightarrow> ('s \<Rightarrow> 'a \<times> 's) \<Rightarrow> bool" where
  "keeps P f = (\<forall>s. P s \<longrightarrow> P (snd (f s)))"

text \<open>In the example backend: engine \<open>u\<close> is open.\<close>

definition is_open :: "UUID \<Rightarrow> fake_state \<Rightarrow> bool" where
  "is_open u s = (u \<in> set (open_engines s))"

fun is_Panics :: "'a outcome \<Rightarrow> bool" where
  "is_Panics (Panics format args) = True"
| "is_Panics (Returns x) = False"

section \<open>Properties\<close>

declare format_nat.simps [simp del]
declare Import_loop.simps [simp del]
declare WriteRows_retry.simps [simp del]
declare bit_length.simps [simp del]

subsection \<open>Engine identity is deterministic and injective\<close>

lemma digit_char_table:
  "list_all (\<lambda>d. digit_char d \<in> set ''0123456789'' \<and> digit_val (digit_char d) = d) [0..<10]"
  by code_simp

lemma digit_char_cases:
  assumes "d < 10"
  shows "digit_char d \<in> set ''0123456789''" and "digit_val (digit_char d) = d"
proof -
  from assms have "d \<in> set [0..<10]" by simp
  with digit_char_table
  have "digit_char d \<in> set ''0123456789'' \<and> digit_val (digit_char d) = d"
    unfolding list_all_iff by (rule bspec)
  then show "digit_char d \<in> set ''0123456789''" and "digit_val (digit_char d) = d"
    by (rule conjunct1, rule conjunct2)
qed

lemma format_nat_digits: "set (format_nat n) \<subseteq> set ''0123456789''"
proof (induction n rule: format_nat.induct)
  case (1 n)
  show ?case
  proof (cases "n < 10")
    case True
    then have "format_nat n = [digit_char n]"
      by (simp add: format_nat.simps [of n])
    with digit_char_cases(1) [OF True] show ?thesis
      by (simp only: list.set insert_subset empty_subsetI simp_thms)
  next
    case False
    then have f: "format_nat n = format_nat (n div 10) @ [digit_char (n mod 10)]"
      by (simp add: format_nat.simps [of n])
    have "n mod 10 < 10" by simp
    from digit_char_cases(1) [OF this] "1.IH" [OF False] show ?thesis
      unfolding f by (simp only: set_append list.set Un_subset_iff insert_subset empty_subsetI simp_thms)
  qed
qed

lemma parse_nat_snoc: "parse_nat (xs @ [c]) = 10 * parse_nat xs + digit_val c"
  by (simp add: parse_nat_def)

lemma parse_format_nat: "parse_nat (format_nat n) = n"
proof (induction n rule: format_nat.induct)
  case (1 n)
  show ?case
  proof (cases "n < 10")
    case True
    then have "format_nat n = [digit_char n]"
      by (simp add: format_nat.simps [of n])
    then have "parse_nat (format_nat n) = digit_val (digit_char n)"
      by (simp add: parse_nat_def)
    then show ?thesis
      using digit_char_cases(2) [OF True] by simp
  next
    case False
    then have f: "format_nat n = format_nat (n div 10) @ [digit_char (n mod 10)]"
      by (simp add: format_nat.simps [of n])
    have "n mod 10 < 10" by simp
    from digit_char_cases(2) [OF this] have d: "digit_val (digit_char (n mod 10)) = n mod 10" .
    have "parse_nat (format_nat n) = 10 * (n div 10) + n mod 10"
      unfolding f parse_nat_snoc "1.IH" [OF False] d ..
    then show ?thesis by simp
  qed
qed

lemma format_nat_inj:
  assumes "format_nat n = format_nat m"
  shows "n = m"
proof -
  have "n = parse_nat (format_nat n)" by (simp only: parse_format_nat)
  also have "\<dots> = parse_nat (format_nat m)" by (simp only: assms)
  also have "\<dots> = m" by (rule parse_format_nat)
  finally show ?thesis .
qed

lemma format_nat_no_sign: "CHR ''-'' \<notin> set (format_nat n)" "CHR '':'' \<notin> set (format_nat n)"
proof -
  have "CHR ''-'' \<notin> set ''0123456789''" "CHR '':'' \<notin> set ''0123456789''"
    by simp_all
  with format_nat_digits [of n] show "CHR ''-'' \<notin> set (format_nat n)" "CHR '':'' \<notin> set (format_nat n)"
    by (blast, blast)
qed

lemma format_d_no_colon: "CHR '':'' \<notin> set (format_d i)"
  by (simp add: format_d_def format_nat_no_sign)

lemma format_d_inj:
  assumes "format_d i = format_d j"
  shows "i = j"
proof -
  consider (neg) "i < 0" "j < 0" | (pos) "0 \<le> i" "0 \<le> j" | (np) "i < 0" "0 \<le> j" | (pn) "0 \<le> i" "j < 0"
    by linarith
  then show ?thesis
  proof cases
    case neg
    with assms have "format_nat (nat (- i)) = format_nat (nat (- j))"
      by (simp add: format_d_def)
    then have "nat (- i) = nat (- j)" by (rule format_nat_inj)
    with neg show ?thesis by simp
  next
    case pos
    with assms have "format_nat (nat i) = format_nat (nat j)"
      by (simp add: format_d_def)
    then have "nat i = nat j" by (rule format_nat_inj)
    with pos show ?thesis by simp
  next
    case np
    with assms have "CHR ''-'' # format_nat (nat (- i)) = format_nat (nat j)"
      by (simp add: format_d_def)
    then have "CHR ''-'' \<in> set (format_nat (nat j))"
      by (metis list.set_intros(1))
    with format_nat_no_sign(1) show ?thesis by blast
  next
    case pn
    with assms have "format_nat (nat i) = CHR ''-'' # format_nat (nat (- j))"
      by (simp add: format_d_def)
    then have "CHR ''-'' \<in> set (format_nat (nat i))"
      by (metis list.set_intros(1))
    with format_nat_no_sign(1) show ?thesis by blast
  qed
qed

lemma split_at_last:
  assumes "a @ c # x = b @ c # y" and "c \<notin> set x" and "c \<notin> set y"
  shows "a = b \<and> x = y"
proof -
  have tw: "takeWhile (\<lambda>z. z \<noteq> c) (rev u @ c # v) = rev u" if "c \<notin> set u" for u v
  proof -
    have "takeWhile (\<lambda>z. z \<noteq> c) (rev u @ c # v) = takeWhile (\<lambda>z. z \<noteq> c) (rev u)"
      by (rule takeWhile_tail) simp
    also have "\<dots> = rev u"
      using that by (auto simp add: takeWhile_eq_all_conv)
    finally show ?thesis .
  qed
  have "takeWhile (\<lambda>z. z \<noteq> c) (rev x @ c # rev a) = rev x"
       "takeWhile (\<lambda>z. z \<noteq> c) (rev y @ c # rev b) = rev y"
    by (rule tw [OF assms(2)], rule tw [OF assms(3)])
  moreover from assms(1) have "rev (a @ c # x) = rev (b @ c # y)" by simp
  then have "rev x @ c # rev a = rev y @ c # rev b" by simp
  ultimately have "rev x = rev y" by simp
  then have "x = y" by simp
  with assms(1) show ?thesis by simp
qed

lemma makeTag_inj:
  assumes "makeTag tbl engineID = makeTag tbl' engineID'"
  shows "tbl = tbl' \<and> engineID = engineID'"
proof -
  from assms have "tbl @ CHR '':'' # format_d (sint engineID) = tbl' @ CHR '':'' # format_d (sint engineID')"
    by (simp add: makeTag_def)
  from split_at_last [OF this format_d_no_colon format_d_no_colon]
  have t: "tbl = tbl'" and f: "format_d (sint engineID) = format_d (sint engineID')"
    by simp_all
  from f have "sint engineID = sint engineID'" by (rule format_d_inj)
  then have "engineID = engineID'" by (rule signed_word_eqI)
  with \<open>tbl = tbl'\<close> show ?thesis by simp
qed

lemma OpenEngine_uuid:
  assumes "OpenEngine NewSHA1 failpoint composedTS be ctx tbl engineID w = (Returns (Some eng, err), w')"
  shows "uuid (opened_engine eng) = snd (MakeUUID NewSHA1 tbl engineID) \<and>
         tableName eng = tbl \<and> ts eng = composedTS"
proof -
  obtain tag u where m: "MakeUUID NewSHA1 tbl engineID = (tag, u)"
    by fastforce
  obtain e w1 where c: "call_OpenEngine (abstract be) ctx u w = (e, w1)"
    by fastforce
  from assms m c have "e = None"
    by (simp add: OpenEngine_def split: if_splits)
  with assms m c have "eng = \<lparr>opened_engine =
                           \<lparr>backend = abstract be, logger = makeLogger tag u, uuid = u\<rparr>,
                         tableName = tbl, ts = composedTS\<rparr>"
    by (simp add: OpenEngine_def Let_def split: option.splits if_splits)
  with m show ?thesis by simp
qed

text \<open>
  Claim C6. The identity of an engine is a function of the table name and the engine ID
  alone: \<open>MakeUUID\<close> takes no clock and no random source, so equal inputs give equal
  results. Different inputs give different tags, and they give different UUIDs unless the
  hash maps the two different tags to one value. An engine opened by \<^verbatim>\<open>OpenEngine\<close>
  carries that UUID, whatever the state of the process, the time and the failpoint.
\<close>
theorem MakeUUID_deterministic_injective:
  "(tbl = tbl' \<and> engineID = engineID' \<longrightarrow>
      MakeUUID NewSHA1 tbl engineID = MakeUUID NewSHA1 tbl' engineID') \<and>
   (fst (MakeUUID NewSHA1 tbl engineID) = fst (MakeUUID NewSHA1 tbl' engineID') \<longrightarrow>
      tbl = tbl' \<and> engineID = engineID') \<and>
   (snd (MakeUUID NewSHA1 tbl engineID) = snd (MakeUUID NewSHA1 tbl' engineID') \<longrightarrow>
      (tbl = tbl' \<and> engineID = engineID') \<or>
      hash_collision NewSHA1 (makeTag tbl engineID) (makeTag tbl' engineID')) \<and>
   (OpenEngine NewSHA1 failpoint composedTS be ctx tbl engineID w = (Returns (Some eng, err), w') \<longrightarrow>
      uuid (opened_engine eng) = snd (MakeUUID NewSHA1 tbl engineID))"
proof -
  have same: "tbl = tbl' \<and> engineID = engineID' \<longrightarrow>
      MakeUUID NewSHA1 tbl engineID = MakeUUID NewSHA1 tbl' engineID'"
    by simp
  have tag: "fst (MakeUUID NewSHA1 tbl engineID) = fst (MakeUUID NewSHA1 tbl' engineID') \<longrightarrow>
      tbl = tbl' \<and> engineID = engineID'"
  proof
    assume "fst (MakeUUID NewSHA1 tbl engineID) = fst (MakeUUID NewSHA1 tbl' engineID')"
    then have "makeTag tbl engineID = makeTag tbl' engineID'"
      by (simp add: MakeUUID_def Let_def)
    then show "tbl = tbl' \<and> engineID = engineID'" by (rule makeTag_inj)
  qed
  have id: "snd (MakeUUID NewSHA1 tbl engineID) = snd (MakeUUID NewSHA1 tbl' engineID') \<longrightarrow>
      (tbl = tbl' \<and> engineID = engineID') \<or>
      hash_collision NewSHA1 (makeTag tbl engineID) (makeTag tbl' engineID')"
  proof
    assume eq: "snd (MakeUUID NewSHA1 tbl engineID) = snd (MakeUUID NewSHA1 tbl' engineID')"
    show "(tbl = tbl' \<and> engineID = engineID') \<or>
        hash_collision NewSHA1 (makeTag tbl engineID) (makeTag tbl' engineID')"
    proof (cases "makeTag tbl engineID = makeTag tbl' engineID'")
      case True
      then have "tbl = tbl' \<and> engineID = engineID'" by (rule makeTag_inj)
      then show ?thesis ..
    next
      case False
      with eq have "hash_collision NewSHA1 (makeTag tbl engineID) (makeTag tbl' engineID')"
        by (simp add: MakeUUID_def Let_def hash_collision_def)
      then show ?thesis ..
    qed
  qed
  have opened: "OpenEngine NewSHA1 failpoint composedTS be ctx tbl engineID w =
        (Returns (Some eng, err), w') \<longrightarrow>
      uuid (opened_engine eng) = snd (MakeUUID NewSHA1 tbl engineID)"
  proof
    assume "OpenEngine NewSHA1 failpoint composedTS be ctx tbl engineID w =
        (Returns (Some eng, err), w')"
    from OpenEngine_uuid [OF this]
    show "uuid (opened_engine eng) = snd (MakeUUID NewSHA1 tbl engineID)" ..
  qed
  from same tag id opened show ?thesis by (intro conjI)
qed

theorem MakeUUID_deterministic_injective_witness:
  "MakeUUID sum_hash ''ab'' 1 = MakeUUID sum_hash ''ab'' 1 \<and>
   makeTag ''ab'' 1 = ''ab:1'' \<and> makeTag ''ba'' 1 = ''ba:1'' \<and>
   fst (MakeUUID sum_hash ''ab'' 1) \<noteq> fst (MakeUUID sum_hash ''ba'' 1) \<and>
   snd (MakeUUID sum_hash ''ab'' 1) = snd (MakeUUID sum_hash ''ba'' 1) \<and>
   hash_collision sum_hash (makeTag ''ab'' 1) (makeTag ''ba'' 1) \<and>
   OpenEngine sum_hash None 99 (MakeBackend (fake_backend [])) (Ctx 0) ''ab'' 1 (fresh []) =
     (Returns
        (Some \<lparr>opened_engine =
                 \<lparr>backend = abstract (MakeBackend (fake_backend [])),
                  logger = makeLogger ''ab:1'' (sum_hash engineNamespace ''ab:1''),
                  uuid = sum_hash engineNamespace ''ab:1''\<rparr>,
               tableName = ''ab'', ts = 99\<rparr>, None),
      snd (OpenEngine sum_hash None 99 (MakeBackend (fake_backend [])) (Ctx 0) ''ab'' 1 (fresh []))) \<and>
   uuid (opened_engine
           \<lparr>opened_engine =
              \<lparr>backend = abstract (MakeBackend (fake_backend [])),
               logger = makeLogger ''ab:1'' (sum_hash engineNamespace ''ab:1''),
               uuid = sum_hash engineNamespace ''ab:1''\<rparr>,
            tableName = ''ab'', ts = 99\<rparr>) =
     snd (MakeUUID sum_hash ''ab'' 1)"
proof -
  have t: "makeTag ''ab'' 1 = ''ab:1''" "makeTag ''ba'' 1 = ''ba:1''"
    by (simp_all add: makeTag_def format_d_def format_nat.simps digit_char_def)
  have s: "snd (MakeUUID sum_hash ''ab'' 1) = snd (MakeUUID sum_hash ''ba'' 1)"
    by (simp add: MakeUUID_def Let_def t sum_hash_def)
  have ne: "\<not> (''ab'' = ''ba'' \<and> (1 :: int32) = 1)"
    by simp
  have o: "OpenEngine sum_hash None 99 (MakeBackend (fake_backend [])) (Ctx 0) ''ab'' 1 (fresh []) =
     (Returns
        (Some \<lparr>opened_engine =
                 \<lparr>backend = abstract (MakeBackend (fake_backend [])),
                  logger = makeLogger ''ab:1'' (sum_hash engineNamespace ''ab:1''),
                  uuid = sum_hash engineNamespace ''ab:1''\<rparr>,
               tableName = ''ab'', ts = 99\<rparr>, None),
      snd (OpenEngine sum_hash None 99 (MakeBackend (fake_backend [])) (Ctx 0) ''ab'' 1 (fresh [])))"
    by (simp add: OpenEngine_def Let_def MakeUUID_def t call_OpenEngine_def MakeBackend_def
        fake_backend_def fake_open_def answer_def fresh_def)
  note th = MakeUUID_deterministic_injective [of "''ab''" "''ba''" 1 1 sum_hash]
  note th' = MakeUUID_deterministic_injective [of "''ab''" "''ab''" 1 1 sum_hash]
  have d: "MakeUUID sum_hash ''ab'' 1 = MakeUUID sum_hash ''ab'' 1"
    by (rule mp [OF th' [THEN conjunct1]]) simp
  have f: "fst (MakeUUID sum_hash ''ab'' 1) \<noteq> fst (MakeUUID sum_hash ''ba'' 1)"
  proof
    assume "fst (MakeUUID sum_hash ''ab'' 1) = fst (MakeUUID sum_hash ''ba'' 1)"
    from ne mp [OF th [THEN conjunct2, THEN conjunct1] this] show False by (rule notE)
  qed
  from mp [OF th [THEN conjunct2, THEN conjunct2, THEN conjunct1] s] ne
  have c: "hash_collision sum_hash (makeTag ''ab'' 1) (makeTag ''ba'' 1)"
    by simp
  note u = mp [OF th' [THEN conjunct2, THEN conjunct2, THEN conjunct2] o]
  show ?thesis
    by (rule conjI [OF d conjI [OF t(1) conjI [OF t(2) conjI [OF f conjI [OF s conjI [OF c
          conjI [OF o u]]]]]]])
qed

subsection \<open>The disk quota check\<close>

lemma running_total_Cons:
  "running_total (y # ys) 0 = Size y"
  "running_total (y # ys) (Suc k) = Size y + running_total ys k"
  by (simp_all add: running_total_def)

lemma excess_above_Cons:
  "map (\<lambda>k. (y # ys) ! k) (filter (\<lambda>k. quota <s t + running_total (y # ys) k) [0..<length (y # ys)]) =
     (if quota <s t + Size y then [y] else []) @
     map (\<lambda>k. ys ! k) (filter (\<lambda>k. quota <s (t + Size y) + running_total ys k) [0..<length ys])"
proof -
  have "[0..<Suc (length ys)] = 0 # [Suc 0..<Suc (length ys)]"
    by (rule upt_conv_Cons) simp
  then have "[0..<length (y # ys)] = 0 # map Suc [0..<length ys]"
    by (simp only: map_Suc_upt length_Cons)
  then show ?thesis
    by (simp add: filter_map comp_def running_total_Cons add.assoc del: upt_Suc)
qed

lemma CheckDiskQuota_loop_excess:
  "CheckDiskQuota_loop quota ys (large, n, t) =
     (large @ map UUID (filter (\<lambda>r. \<not> IsImporting r)
        (map (\<lambda>k. ys ! k) (filter (\<lambda>k. quota <s t + running_total ys k) [0..<length ys]))),
      n + length (filter IsImporting
        (map (\<lambda>k. ys ! k) (filter (\<lambda>k. quota <s t + running_total ys k) [0..<length ys]))),
      t + sum_list (map Size ys))"
proof (induction ys arbitrary: large n t)
  case Nil
  then show ?case by simp
next
  case (Cons y ys)
  show ?case
    unfolding excess_above_Cons
    by (simp add: Cons.IH Let_def add.assoc)
qed

lemma sorted_importing_first:
  assumes "sorted_wrt (\<lambda>a b. \<not> CheckDiskQuota_less b a) ys"
  shows "importing_first ys"
  unfolding importing_first_def
proof (rule sorted_wrt_mono_rel [OF _ assms])
  fix a b
  assume "\<not> CheckDiskQuota_less b a"
  then show "(IsImporting b \<longrightarrow> IsImporting a) \<and>
             (IsImporting a = IsImporting b \<longrightarrow> Size a \<le>s Size b)"
    by (auto simp: CheckDiskQuota_less_def split: if_splits)
qed

lemma filter_upward_closed:
  assumes "\<And>i j. i \<le> j \<Longrightarrow> j < n \<Longrightarrow> E i \<Longrightarrow> E j"
  shows "\<exists>k\<le>n. filter E [0..<n] = [k..<n] \<and> (\<forall>j<k. \<not> E j)"
  using assms
proof (induction n)
  case 0
  then show ?case by simp
next
  case (Suc n)
  show ?case
  proof (cases "E n")
    case True
    from Suc.IH Suc.prems obtain k where k: "k \<le> n" "filter E [0..<n] = [k..<n]" "\<forall>j<k. \<not> E j"
      by (metis less_Suc_eq)
    with True show ?thesis
      by (intro exI [of _ k]) simp
  next
    case False
    have "\<not> E i" if "i < n" for i
      using Suc.prems [of i n] that False by auto
    then have "filter E [0..<n] = []" "\<forall>j<Suc n. \<not> E j"
      using False by (auto simp: less_Suc_eq)
    with False show ?thesis
      by (intro exI [of _ "Suc n"]) simp
  qed
qed

lemma map_nth_drop: "k \<le> length xs \<Longrightarrow> map (\<lambda>i. xs ! i) [k..<length xs] = drop k xs"
  by (rule nth_equalityI) simp_all

lemma sint_sum_list_nonneg:
  fixes xs :: "int64 list"
  assumes "\<forall>x\<in>set xs. 0 \<le> sint x" and "(\<Sum>x\<leftarrow>xs. sint x) < 2 ^ 63"
  shows "sint (sum_list xs) = (\<Sum>x\<leftarrow>xs. sint x)"
  using assms
proof (induction xs)
  case Nil
  then show ?case by simp
next
  case (Cons x xs)
  have nn: "0 \<le> (\<Sum>x\<leftarrow>xs. sint x)"
    using Cons.prems(1) by (intro sum_list_nonneg) auto
  have x: "0 \<le> sint x" using Cons.prems(1) by simp
  from Cons.prems(2) x have "(\<Sum>x\<leftarrow>xs. sint x) < 2 ^ 63" by simp
  with Cons.IH Cons.prems(1) have IH: "sint (sum_list xs) = (\<Sum>x\<leftarrow>xs. sint x)" by simp
  have "sint (x + sum_list xs) = signed_take_bit 63 (sint x + sint (sum_list xs))"
    by (simp add: sint_word_add)
  also have "\<dots> = sint x + sint (sum_list xs)"
    using nn x Cons.prems(2) IH by (intro signed_take_bit_int_eq_self) simp_all
  finally show ?case using IH by simp
qed

lemma CheckDiskQuota_less_asym: "CheckDiskQuota_less a b \<Longrightarrow> \<not> CheckDiskQuota_less b a"
  by (auto simp: CheckDiskQuota_less_def word_sless_alt split: if_splits)

lemma CheckDiskQuota_less_trans:
  "CheckDiskQuota_less a b \<Longrightarrow> CheckDiskQuota_less b c \<Longrightarrow> CheckDiskQuota_less a c"
  by (auto simp: CheckDiskQuota_less_def word_sless_alt split: if_splits)

lemma mset_insert_by: "mset (insert_by lt x ys) = add_mset x (mset ys)"
  by (induction ys) simp_all

lemma mset_insertion_sort: "mset (insertion_sort lt xs) = mset xs"
  by (induction xs) (simp_all add: mset_insert_by)

lemma set_insert_by: "set (insert_by lt x ys) = insert x (set ys)"
  by (induction ys) auto

lemma sorted_insert_by:
  assumes asym: "\<And>a b. lt a b \<Longrightarrow> \<not> lt b a"
    and trans: "\<And>a b c. lt a b \<Longrightarrow> lt b c \<Longrightarrow> lt a c"
    and "sorted_wrt (\<lambda>a b. \<not> lt b a) ys"
  shows "sorted_wrt (\<lambda>a b. \<not> lt b a) (insert_by lt x ys)"
  using assms(3)
proof (induction ys)
  case Nil
  then show ?case by simp
next
  case (Cons y ys)
  show ?case
  proof (cases "lt x y")
    case True
    have "\<not> lt z x" if "z \<in> set (y # ys)" for z
    proof
      assume "lt z x"
      from this True have "lt z y" by (rule trans)
      with that Cons.prems asym [of z y] show False by auto
    qed
    with True Cons.prems show ?thesis by simp
  next
    case False
    with Cons show ?thesis by (simp add: set_insert_by)
  qed
qed

lemma sorted_insertion_sort:
  assumes "\<And>a b. lt a b \<Longrightarrow> \<not> lt b a"
    and "\<And>a b c. lt a b \<Longrightarrow> lt b c \<Longrightarrow> lt a c"
  shows "sorted_wrt (\<lambda>a b. \<not> lt b a) (insertion_sort lt xs)"
  by (induction xs) (simp_all add: sorted_insert_by [OF assms])

lemma insertion_sort_sorts: "sort_Slice_sorts insertion_sort CheckDiskQuota_less xs"
  unfolding sort_Slice_sorts_def
  by (intro conjI mset_insertion_sort sorted_insertion_sort)
     (erule CheckDiskQuota_less_asym, erule (1) CheckDiskQuota_less_trans)

lemma sum_list_map_mset:
  fixes f :: "'a \<Rightarrow> 'b::comm_monoid_add"
  assumes "mset ys = mset xs"
  shows "sum_list (map f ys) = sum_list (map f xs)"
proof -
  have "sum_list (map f ys) = sum_mset (image_mset f (mset ys))"
    by (simp flip: sum_mset_sum_list)
  also have "\<dots> = sum_mset (image_mset f (mset xs))"
    by (simp only: assms)
  also have "\<dots> = sum_list (map f xs)"
    by (simp flip: sum_mset_sum_list)
  finally show ?thesis .
qed

lemma prefix_sum_mono:
  fixes g :: "'a \<Rightarrow> int"
  assumes "\<forall>x\<in>set ys. 0 \<le> g x" and "i \<le> j"
  shows "sum_list (map g (take i ys)) \<le> sum_list (map g (take j ys))"
proof -
  from assms(2) have "take j ys = take i ys @ take (j - i) (drop i ys)"
    by (simp flip: take_add)
  moreover have "0 \<le> sum_list (map g (take (j - i) (drop i ys)))"
  proof (rule sum_list_nonneg)
    fix x assume "x \<in> set (map g (take (j - i) (drop i ys)))"
    then obtain y where "y \<in> set (take (j - i) (drop i ys))" "x = g y" by auto
    moreover from this(1) have "y \<in> set ys"
      by (meson in_set_dropD in_set_takeD)
    ultimately show "0 \<le> x" using assms(1) by simp
  qed
  ultimately show ?thesis by simp
qed

lemma sint_running_total:
  assumes g: "\<forall>r\<in>set ys. 0 \<le> sint (Size r)"
    and fit: "(\<Sum>r\<leftarrow>ys. sint (Size r)) < 2 ^ 63"
  shows "sint (running_total ys k) = (\<Sum>r\<leftarrow>take (Suc k) ys. sint (Size r))"
proof -
  let ?g = "\<lambda>r. sint (Size r)"
  have "\<forall>x\<in>set (map Size (take (Suc k) ys)). 0 \<le> sint x"
  proof
    fix x assume "x \<in> set (map Size (take (Suc k) ys))"
    then obtain r where r: "r \<in> set (take (Suc k) ys)" "x = Size r"
      by (auto simp only: set_map)
    from r(1) have "r \<in> set ys" by (rule in_set_takeD)
    with g r(2) show "0 \<le> sint x" by simp
  qed
  moreover have "sum_list (map ?g (take (Suc k) ys)) \<le> sum_list (map ?g (take (length ys) ys))"
  proof (cases "Suc k \<le> length ys")
    case True
    then show ?thesis by (rule prefix_sum_mono [OF g])
  next
    case False
    then show ?thesis by simp
  qed
  then have "sum_list (map ?g (take (Suc k) ys)) < 2 ^ 63"
    using fit by simp
  then have "(\<Sum>x\<leftarrow>map Size (take (Suc k) ys). sint x) < 2 ^ 63"
    by (simp only: map_map comp_def)
  ultimately have "sint (sum_list (map Size (take (Suc k) ys))) =
                     (\<Sum>x\<leftarrow>map Size (take (Suc k) ys). sint x)"
    by (rule sint_sum_list_nonneg)
  then show ?thesis by (simp only: running_total_def map_map comp_def)
qed

lemma excess_suffix:
  assumes nn: "\<forall>r\<in>set ys. 0 \<le>s Size r"
    and fit: "(\<Sum>r\<leftarrow>ys. sint (Size r)) < 2 ^ 63"
  shows "\<exists>k\<le>length ys. excess quota ys = drop k ys \<and> (\<forall>j<k. \<not> quota <s running_total ys j)"
proof -
  let ?g = "\<lambda>r. sint (Size r)"
  from nn have g: "\<forall>r\<in>set ys. 0 \<le> ?g r"
    by (simp add: word_sle_eq)
  note rt = sint_running_total [OF g fit]
  have up: "quota <s running_total ys j" if "i \<le> j" "j < length ys" "quota <s running_total ys i" for i j
  proof -
    from that(1) have "Suc i \<le> Suc j" by simp
    then have "sum_list (map ?g (take (Suc i) ys)) \<le> sum_list (map ?g (take (Suc j) ys))"
      by (rule prefix_sum_mono [OF g])
    then have "sint (running_total ys i) \<le> sint (running_total ys j)"
      by (simp only: rt)
    moreover from that(3) have "sint quota < sint (running_total ys i)"
      by (simp only: word_sless_alt)
    ultimately have "sint quota < sint (running_total ys j)"
      by (rule less_le_trans [rotated])
    then show ?thesis by (simp only: word_sless_alt)
  qed
  from filter_upward_closed [of "length ys" "\<lambda>k. quota <s running_total ys k", OF up]
  obtain k where k: "k \<le> length ys \<and>
    filter (\<lambda>k. quota <s running_total ys k) [0..<length ys] = [k..<length ys] \<and>
    (\<forall>j<k. \<not> quota <s running_total ys j)" ..
  then have "excess quota ys = drop k ys"
    by (simp add: excess_def map_nth_drop)
  with k have "k \<le> length ys \<and> excess quota ys = drop k ys \<and> (\<forall>j<k. \<not> quota <s running_total ys j)"
    by simp
  then show ?thesis ..
qed

lemma CheckDiskQuota_result:
  assumes "ab_EngineFileSizes (abstract be) (bstate w) = (sizes, s)"
  shows "fst (CheckDiskQuota sort_Slice be quota w) =
           CheckDiskQuota_loop quota (sort_Slice CheckDiskQuota_less sizes) ([], 0, 0)"
  using assms by (simp add: CheckDiskQuota_def call_EngineFileSizes_def)

text \<open>
  Claim C1, as the code has it. For every list of engine size records and every quota,
  \<^verbatim>\<open>CheckDiskQuota\<close> works on a permutation of the records in which every importing
  record comes before all others, ascending by size among the importing and among the
  others. A record is excess exactly when the running total that includes it is above the
  quota (the total is an \<^verbatim>\<open>int64\<close> and wraps). The excess records that are importing
  are counted in \<^verbatim>\<open>inProgressLargeEngines\<close>; the UUIDs of the others are returned in
  \<^verbatim>\<open>largeEngines\<close>, in that order; \<^verbatim>\<open>totalSize\<close> is the sum of all sizes. When no
  size is negative and the sum is below \<open>2^63\<close>, the excess records are the record at
  which the running total first exceeds the quota and every record after it.
\<close>
theorem CheckDiskQuota_order_and_excess:
  assumes sizes: "ab_EngineFileSizes (abstract be) (bstate w) = (sizes, s)"
    and srt: "sort_Slice_sorts sort_Slice CheckDiskQuota_less sizes"
  defines "ordered \<equiv> sort_Slice CheckDiskQuota_less sizes"
  shows "mset ordered = mset sizes \<and> importing_first ordered \<and>
         fst (CheckDiskQuota sort_Slice be quota w) =
           (map UUID (filter (\<lambda>r. \<not> IsImporting r) (excess quota ordered)),
            length (filter IsImporting (excess quota ordered)),
            sum_list (map Size sizes)) \<and>
         ((\<forall>r\<in>set sizes. 0 \<le>s Size r) \<and> (\<Sum>r\<leftarrow>sizes. sint (Size r)) < 2 ^ 63 \<longrightarrow>
            (\<exists>k\<le>length ordered.
               excess quota ordered = drop k ordered \<and>
               (\<forall>j<k. \<not> quota <s running_total ordered j)))"
proof -
  from srt have perm: "mset ordered = mset sizes"
    and ord: "sorted_wrt (\<lambda>a b. \<not> CheckDiskQuota_less b a) ordered"
    by (simp_all add: sort_Slice_sorts_def ordered_def)
  from ord have first: "importing_first ordered"
    by (rule sorted_importing_first)
  have "fst (CheckDiskQuota sort_Slice be quota w) = CheckDiskQuota_loop quota ordered ([], 0, 0)"
    unfolding ordered_def by (rule CheckDiskQuota_result [OF sizes])
  also have "\<dots> = (map UUID (filter (\<lambda>r. \<not> IsImporting r) (excess quota ordered)),
            length (filter IsImporting (excess quota ordered)),
            sum_list (map Size ordered))"
    by (simp add: CheckDiskQuota_loop_excess excess_def)
  also have "sum_list (map Size ordered) = sum_list (map Size sizes)"
    by (rule sum_list_map_mset [OF perm])
  finally have res: "fst (CheckDiskQuota sort_Slice be quota w) =
           (map UUID (filter (\<lambda>r. \<not> IsImporting r) (excess quota ordered)),
            length (filter IsImporting (excess quota ordered)),
            sum_list (map Size sizes))" .
  have suffix: "(\<forall>r\<in>set sizes. 0 \<le>s Size r) \<and> (\<Sum>r\<leftarrow>sizes. sint (Size r)) < 2 ^ 63 \<longrightarrow>
            (\<exists>k\<le>length ordered.
               excess quota ordered = drop k ordered \<and>
               (\<forall>j<k. \<not> quota <s running_total ordered j))"
  proof
    assume a: "(\<forall>r\<in>set sizes. 0 \<le>s Size r) \<and> (\<Sum>r\<leftarrow>sizes. sint (Size r)) < 2 ^ 63"
    from perm have "set ordered = set sizes" by (rule mset_eq_setD)
    with a have nn: "\<forall>r\<in>set ordered. 0 \<le>s Size r" by simp
    have "(\<Sum>r\<leftarrow>ordered. sint (Size r)) = (\<Sum>r\<leftarrow>sizes. sint (Size r))"
      by (rule sum_list_map_mset [OF perm])
    with a have fit: "(\<Sum>r\<leftarrow>ordered. sint (Size r)) < 2 ^ 63" by simp
    from excess_suffix [OF nn fit]
    show "\<exists>k\<le>length ordered.
               excess quota ordered = drop k ordered \<and>
               (\<forall>j<k. \<not> quota <s running_total ordered j)" .
  qed
  from perm first res suffix show ?thesis by (intro conjI)
qed

theorem CheckDiskQuota_order_and_excess_witness:
  "ab_EngineFileSizes
     (abstract (MakeBackend (fake_backend
        [\<lparr>UUID = 1, Size = 30, IsImporting = False\<rparr>,
         \<lparr>UUID = 2, Size = 5, IsImporting = True\<rparr>,
         \<lparr>UUID = 3, Size = 10, IsImporting = False\<rparr>])))
     (bstate (fresh [])) =
     ([\<lparr>UUID = 1, Size = 30, IsImporting = False\<rparr>,
       \<lparr>UUID = 2, Size = 5, IsImporting = True\<rparr>,
       \<lparr>UUID = 3, Size = 10, IsImporting = False\<rparr>], bstate (fresh [])) \<and>
   sort_Slice_sorts insertion_sort CheckDiskQuota_less
     [\<lparr>UUID = 1, Size = 30, IsImporting = False\<rparr>,
      \<lparr>UUID = 2, Size = 5, IsImporting = True\<rparr>,
      \<lparr>UUID = 3, Size = 10, IsImporting = False\<rparr>] \<and>
   insertion_sort CheckDiskQuota_less
     [\<lparr>UUID = 1, Size = 30, IsImporting = False\<rparr>,
      \<lparr>UUID = 2, Size = 5, IsImporting = True\<rparr>,
      \<lparr>UUID = 3, Size = 10, IsImporting = False\<rparr>] =
     [\<lparr>UUID = 2, Size = 5, IsImporting = True\<rparr>,
      \<lparr>UUID = 3, Size = 10, IsImporting = False\<rparr>,
      \<lparr>UUID = 1, Size = 30, IsImporting = False\<rparr>] \<and>
   importing_first
     (insertion_sort CheckDiskQuota_less
        [\<lparr>UUID = 1, Size = 30, IsImporting = False\<rparr>,
         \<lparr>UUID = 2, Size = 5, IsImporting = True\<rparr>,
         \<lparr>UUID = 3, Size = 10, IsImporting = False\<rparr>]) \<and>
   fst (CheckDiskQuota insertion_sort
          (MakeBackend (fake_backend
             [\<lparr>UUID = 1, Size = 30, IsImporting = False\<rparr>,
              \<lparr>UUID = 2, Size = 5, IsImporting = True\<rparr>,
              \<lparr>UUID = 3, Size = 10, IsImporting = False\<rparr>]))
          4 (fresh [])) = ([3, 1], 1, 45) \<and>
   (\<exists>k\<le>length (insertion_sort CheckDiskQuota_less
                   [\<lparr>UUID = 1, Size = 30, IsImporting = False\<rparr>,
                    \<lparr>UUID = 2, Size = 5, IsImporting = True\<rparr>,
                    \<lparr>UUID = 3, Size = 10, IsImporting = False\<rparr>]).
      excess 4 (insertion_sort CheckDiskQuota_less
                  [\<lparr>UUID = 1, Size = 30, IsImporting = False\<rparr>,
                   \<lparr>UUID = 2, Size = 5, IsImporting = True\<rparr>,
                   \<lparr>UUID = 3, Size = 10, IsImporting = False\<rparr>]) =
        drop k (insertion_sort CheckDiskQuota_less
                  [\<lparr>UUID = 1, Size = 30, IsImporting = False\<rparr>,
                   \<lparr>UUID = 2, Size = 5, IsImporting = True\<rparr>,
                   \<lparr>UUID = 3, Size = 10, IsImporting = False\<rparr>]) \<and>
      (\<forall>j<k. \<not> 4 <s running_total
                        (insertion_sort CheckDiskQuota_less
                           [\<lparr>UUID = 1, Size = 30, IsImporting = False\<rparr>,
                            \<lparr>UUID = 2, Size = 5, IsImporting = True\<rparr>,
                            \<lparr>UUID = 3, Size = 10, IsImporting = False\<rparr>]) j))"
proof -
  let ?S = "[\<lparr>UUID = 1, Size = 30, IsImporting = False\<rparr>,
             \<lparr>UUID = 2, Size = 5, IsImporting = True\<rparr>,
             \<lparr>UUID = 3, Size = 10, IsImporting = False\<rparr>]"
  let ?be = "MakeBackend (fake_backend ?S)"
  have h1: "ab_EngineFileSizes (abstract ?be) (bstate (fresh [])) = (?S, bstate (fresh []))"
    by (simp add: MakeBackend_def fake_backend_def)
  have h2: "sort_Slice_sorts insertion_sort CheckDiskQuota_less ?S"
    by (rule insertion_sort_sorts)
  have o: "insertion_sort CheckDiskQuota_less ?S =
             [\<lparr>UUID = 2, Size = 5, IsImporting = True\<rparr>,
              \<lparr>UUID = 3, Size = 10, IsImporting = False\<rparr>,
              \<lparr>UUID = 1, Size = 30, IsImporting = False\<rparr>]"
    by (simp add: CheckDiskQuota_less_def)
  have a: "(\<forall>r\<in>set ?S. 0 \<le>s Size r) \<and> (\<Sum>r\<leftarrow>?S. sint (Size r)) < 2 ^ 63"
    by (simp add: word_sle_eq)
  have r: "fst (CheckDiskQuota insertion_sort ?be 4 (fresh [])) = ([3, 1], 1, 45)"
    by code_simp
  note th = CheckDiskQuota_order_and_excess [OF h1 h2, of 4]
  note first = th [THEN conjunct2, THEN conjunct1]
  note suffix = mp [OF th [THEN conjunct2, THEN conjunct2, THEN conjunct2] a]
  show ?thesis
    by (rule conjI [OF h1 conjI [OF h2 conjI [OF o conjI [OF first conjI [OF r suffix]]]]])
qed

text \<open>
  The order with the importing records last does not hold: for A of size 10, not importing,
  and C of size 5, importing, \<^verbatim>\<open>less\<close> puts C before A. With the quota 7 the code
  returns no importing excess engine, where the order A, C would count one.
\<close>
theorem CheckDiskQuota_order_and_excess_counterexample:
  "CheckDiskQuota_less \<lparr>UUID = 3, Size = 5, IsImporting = True\<rparr>
     \<lparr>UUID = 1, Size = 10, IsImporting = False\<rparr> \<and>
   \<not> CheckDiskQuota_less \<lparr>UUID = 1, Size = 10, IsImporting = False\<rparr>
       \<lparr>UUID = 3, Size = 5, IsImporting = True\<rparr> \<and>
   insertion_sort CheckDiskQuota_less
     [\<lparr>UUID = 1, Size = 10, IsImporting = False\<rparr>, \<lparr>UUID = 3, Size = 5, IsImporting = True\<rparr>] =
     [\<lparr>UUID = 3, Size = 5, IsImporting = True\<rparr>, \<lparr>UUID = 1, Size = 10, IsImporting = False\<rparr>] \<and>
   \<not> importing_last
       (insertion_sort CheckDiskQuota_less
          [\<lparr>UUID = 1, Size = 10, IsImporting = False\<rparr>,
           \<lparr>UUID = 3, Size = 5, IsImporting = True\<rparr>]) \<and>
   fst (CheckDiskQuota insertion_sort
          (MakeBackend (fake_backend
             [\<lparr>UUID = 1, Size = 10, IsImporting = False\<rparr>,
              \<lparr>UUID = 3, Size = 5, IsImporting = True\<rparr>]))
          7 (fresh [])) = ([1], 0, 15) \<and>
   CheckDiskQuota_loop 7
     [\<lparr>UUID = 1, Size = 10, IsImporting = False\<rparr>, \<lparr>UUID = 3, Size = 5, IsImporting = True\<rparr>]
     ([], 0, 0) = ([1], 1, 15)"
  by (simp add: CheckDiskQuota_less_def importing_last_def CheckDiskQuota_def
      call_EngineFileSizes_def MakeBackend_def fake_backend_def Let_def)

lemma sorted_wrt_unique:
  assumes "mset xs = mset ys" and "sorted_wrt R xs" and "sorted_wrt R ys"
    and "\<And>a b. a \<in> set xs \<Longrightarrow> b \<in> set xs \<Longrightarrow> R a b \<Longrightarrow> R b a \<Longrightarrow> a = b"
  shows "xs = ys"
  using assms
proof (induction xs arbitrary: ys)
  case Nil
  then show ?case by simp
next
  case (Cons x xs)
  from Cons.prems(1) have "ys \<noteq> []" by auto
  then obtain y ys' where ys: "ys = y # ys'" by (cases ys) auto
  from Cons.prems(1) have sets: "set (x # xs) = set ys" by (rule mset_eq_setD)
  have "x = y"
  proof (rule ccontr)
    assume ne: "x \<noteq> y"
    with sets ys have "x \<in> set ys'" "y \<in> set xs" by auto
    with Cons.prems(2,3) ys have "R y x" "R x y" by auto
    with Cons.prems(4) [of x y] \<open>y \<in> set xs\<close> have "x = y" by simp
    with ne show False ..
  qed
  with Cons.prems(1) ys have "mset xs = mset ys'" by simp
  moreover from Cons.prems(2) have "sorted_wrt R xs" by simp
  moreover from Cons.prems(3) ys have "sorted_wrt R ys'" by simp
  ultimately have "xs = ys'"
    using Cons.prems(4) by (intro Cons.IH) auto
  with \<open>x = y\<close> ys show ?case by simp
qed

text \<open>
  Claim C2, as the code has it. With the sizes A = 10 and B = 30, not importing, and C = 5,
  importing, and the quota 20, the records are taken in the order C, A, B: the running
  totals are 5, 15 and 45, only B is above the quota, and \<^verbatim>\<open>CheckDiskQuota\<close> returns
  \<^verbatim>\<open>largeEngines = [B]\<close>, \<^verbatim>\<open>inProgressLargeEngines = 0\<close> and \<^verbatim>\<open>totalSize = 45\<close>.
\<close>
theorem CheckDiskQuota_example:
  assumes sizes: "ab_EngineFileSizes (abstract be) (bstate w) =
            ([\<lparr>UUID = a, Size = 10, IsImporting = False\<rparr>,
              \<lparr>UUID = b, Size = 30, IsImporting = False\<rparr>,
              \<lparr>UUID = c, Size = 5, IsImporting = True\<rparr>], s)"
    and srt: "sort_Slice_sorts sort_Slice CheckDiskQuota_less
            [\<lparr>UUID = a, Size = 10, IsImporting = False\<rparr>,
             \<lparr>UUID = b, Size = 30, IsImporting = False\<rparr>,
             \<lparr>UUID = c, Size = 5, IsImporting = True\<rparr>]"
  shows "sort_Slice CheckDiskQuota_less
            [\<lparr>UUID = a, Size = 10, IsImporting = False\<rparr>,
             \<lparr>UUID = b, Size = 30, IsImporting = False\<rparr>,
             \<lparr>UUID = c, Size = 5, IsImporting = True\<rparr>] =
            [\<lparr>UUID = c, Size = 5, IsImporting = True\<rparr>,
             \<lparr>UUID = a, Size = 10, IsImporting = False\<rparr>,
             \<lparr>UUID = b, Size = 30, IsImporting = False\<rparr>] \<and>
         fst (CheckDiskQuota sort_Slice be 20 w) = ([b], 0, 45)"
proof -
  let ?A = "\<lparr>UUID = a, Size = 10, IsImporting = False\<rparr>"
  let ?B = "\<lparr>UUID = b, Size = 30, IsImporting = False\<rparr>"
  let ?C = "\<lparr>UUID = c, Size = 5, IsImporting = True\<rparr>"
  let ?R = "\<lambda>a b. \<not> CheckDiskQuota_less b a"
  from srt have perm: "mset (sort_Slice CheckDiskQuota_less [?A, ?B, ?C]) = mset [?A, ?B, ?C]"
    and ord: "sorted_wrt ?R (sort_Slice CheckDiskQuota_less [?A, ?B, ?C])"
    by (simp_all add: sort_Slice_sorts_def)
  have "mset [?C, ?A, ?B] = mset (sort_Slice CheckDiskQuota_less [?A, ?B, ?C])"
    unfolding perm by simp
  moreover have "sorted_wrt ?R [?C, ?A, ?B]"
    by (simp add: CheckDiskQuota_less_def)
  moreover note ord
  moreover have "x = y" if "x \<in> set [?C, ?A, ?B]" "y \<in> set [?C, ?A, ?B]" "?R x y" "?R y x" for x y
    using that by (auto simp: CheckDiskQuota_less_def)
  ultimately have "[?C, ?A, ?B] = sort_Slice CheckDiskQuota_less [?A, ?B, ?C]"
    by (rule sorted_wrt_unique)
  then have o: "sort_Slice CheckDiskQuota_less [?A, ?B, ?C] = [?C, ?A, ?B]" ..
  have "fst (CheckDiskQuota sort_Slice be 20 w) =
          CheckDiskQuota_loop 20 (sort_Slice CheckDiskQuota_less [?A, ?B, ?C]) ([], 0, 0)"
    by (rule CheckDiskQuota_result [OF sizes])
  also have "\<dots> = ([b], 0, 45)"
    unfolding o by (simp add: Let_def)
  finally have "fst (CheckDiskQuota sort_Slice be 20 w) = ([b], 0, 45)" .
  with o show ?thesis ..
qed

theorem CheckDiskQuota_example_witness:
  "ab_EngineFileSizes
     (abstract (MakeBackend (fake_backend
        [\<lparr>UUID = 1, Size = 10, IsImporting = False\<rparr>,
         \<lparr>UUID = 2, Size = 30, IsImporting = False\<rparr>,
         \<lparr>UUID = 3, Size = 5, IsImporting = True\<rparr>])))
     (bstate (fresh [])) =
     ([\<lparr>UUID = 1, Size = 10, IsImporting = False\<rparr>,
       \<lparr>UUID = 2, Size = 30, IsImporting = False\<rparr>,
       \<lparr>UUID = 3, Size = 5, IsImporting = True\<rparr>], bstate (fresh [])) \<and>
   sort_Slice_sorts insertion_sort CheckDiskQuota_less
     [\<lparr>UUID = 1, Size = 10, IsImporting = False\<rparr>,
      \<lparr>UUID = 2, Size = 30, IsImporting = False\<rparr>,
      \<lparr>UUID = 3, Size = 5, IsImporting = True\<rparr>] \<and>
   insertion_sort CheckDiskQuota_less
     [\<lparr>UUID = 1, Size = 10, IsImporting = False\<rparr>,
      \<lparr>UUID = 2, Size = 30, IsImporting = False\<rparr>,
      \<lparr>UUID = 3, Size = 5, IsImporting = True\<rparr>] =
     [\<lparr>UUID = 3, Size = 5, IsImporting = True\<rparr>,
      \<lparr>UUID = 1, Size = 10, IsImporting = False\<rparr>,
      \<lparr>UUID = 2, Size = 30, IsImporting = False\<rparr>] \<and>
   fst (CheckDiskQuota insertion_sort
          (MakeBackend (fake_backend
             [\<lparr>UUID = 1, Size = 10, IsImporting = False\<rparr>,
              \<lparr>UUID = 2, Size = 30, IsImporting = False\<rparr>,
              \<lparr>UUID = 3, Size = 5, IsImporting = True\<rparr>]))
          20 (fresh [])) = ([2], 0, 45)"
proof -
  let ?S = "[\<lparr>UUID = 1, Size = 10, IsImporting = False\<rparr>,
             \<lparr>UUID = 2, Size = 30, IsImporting = False\<rparr>,
             \<lparr>UUID = 3, Size = 5, IsImporting = True\<rparr>]"
  have h1: "ab_EngineFileSizes (abstract (MakeBackend (fake_backend ?S))) (bstate (fresh [])) =
              (?S, bstate (fresh []))"
    by (simp add: MakeBackend_def fake_backend_def)
  have h2: "sort_Slice_sorts insertion_sort CheckDiskQuota_less ?S"
    by (rule insertion_sort_sorts)
  show ?thesis
    by (rule conjI [OF h1 conjI [OF h2 CheckDiskQuota_example [OF h1 h2]]])
qed

text \<open>The result at that input is not the one with \<^verbatim>\<open>inProgressLargeEngines = 1\<close>.\<close>
theorem CheckDiskQuota_example_counterexample:
  "fst (CheckDiskQuota insertion_sort
          (MakeBackend (fake_backend
             [\<lparr>UUID = 1, Size = 10, IsImporting = False\<rparr>,
              \<lparr>UUID = 2, Size = 30, IsImporting = False\<rparr>,
              \<lparr>UUID = 3, Size = 5, IsImporting = True\<rparr>]))
          20 (fresh [])) = ([2], 0, 45) \<and>
   fst (CheckDiskQuota insertion_sort
          (MakeBackend (fake_backend
             [\<lparr>UUID = 1, Size = 10, IsImporting = False\<rparr>,
              \<lparr>UUID = 2, Size = 30, IsImporting = False\<rparr>,
              \<lparr>UUID = 3, Size = 5, IsImporting = True\<rparr>]))
          20 (fresh [])) \<noteq> ([2], 1, 45)"
  by code_simp

subsection \<open>The retry loops and the trace\<close>

lemma Import_loop_trace:
  assumes "Import_loop R eng ctx i err w = (res, w')"
  shows "\<exists>as. trace w' = trace w @ concat (map (import_attempt R ctx (uuid (closed_engine eng))) as) \<and>
           length as \<le> maxRetryTimes - i \<and>
           (\<forall>a\<in>set (butlast as). R (fst a)) \<and>
           (if as = []
            then \<not> i < maxRetryTimes \<and>
                 res = Annotatef err import_retry_format
                         [ArgUUID (uuid (closed_engine eng)), ArgInt (int maxRetryTimes)]
            else if R (fst (last as))
            then length as = maxRetryTimes - i \<and>
                 res = Annotatef (fst (last as)) import_retry_format
                         [ArgUUID (uuid (closed_engine eng)), ArgInt (int maxRetryTimes)]
            else res = fst (last as))"
  using assms
proof (induction R eng ctx i err w rule: Import_loop.induct)
  case (1 R eng ctx i err w)
  show ?case
  proof (cases "i < maxRetryTimes")
    case False
    with "1.prems" have "res = Annotatef err import_retry_format
                         [ArgUUID (uuid (closed_engine eng)), ArgInt (int maxRetryTimes)]" "w' = w"
      by (simp_all add: Import_loop.simps [of R eng ctx i err w])
    with False show ?thesis by (intro exI [of _ "[]"]) simp
  next
    case True
    obtain e w1 where c1: "call_ImportEngine (backend (closed_engine eng)) ctx (uuid (closed_engine eng)) w = (e, w1)"
      by fastforce
    then have t1: "trace w1 = trace w @ [CallImportEngine ctx (uuid (closed_engine eng)) e]"
      by (auto simp: call_ImportEngine_def split: prod.splits)
    show ?thesis
    proof (cases "R e")
      case False
      with True c1 "1.prems" have "res = e" "w' = w1"
        by (simp_all add: Import_loop.simps [of R eng ctx i err w])
      with False True t1 show ?thesis
        by (intro exI [of _ "[(e, 0)]"]) (simp add: import_attempt_def)
    next
      case Re: True
      obtain d w2 where c2: "call_RetryImportDelay (backend (closed_engine eng)) w1 = (d, w2)"
        by fastforce
      then have t2: "trace w2 = trace w1 @ [CallRetryImportDelay d]"
        by (auto simp: call_RetryImportDelay_def split: prod.splits)
      from True Re c1 c2 "1.prems"
      have rec: "Import_loop R eng ctx (i + 1) e (time_Sleep d w2) = (res, w')"
        by (simp add: Import_loop.simps [of R eng ctx i err w])
      from "1.IH" [OF True c1 [symmetric] _ c2 [symmetric] rec] Re
      obtain as where as:
        "trace w' = trace (time_Sleep d w2) @ concat (map (import_attempt R ctx (uuid (closed_engine eng))) as)"
        "length as \<le> maxRetryTimes - (i + 1)"
        "\<forall>a\<in>set (butlast as). R (fst a)"
        "if as = []
            then \<not> i + 1 < maxRetryTimes \<and>
                 res = Annotatef e import_retry_format
                         [ArgUUID (uuid (closed_engine eng)), ArgInt (int maxRetryTimes)]
            else if R (fst (last as))
            then length as = maxRetryTimes - (i + 1) \<and>
                 res = Annotatef (fst (last as)) import_retry_format
                         [ArgUUID (uuid (closed_engine eng)), ArgInt (int maxRetryTimes)]
            else res = fst (last as)"
        by auto
      have t3: "trace (time_Sleep d w2) = trace w @ import_attempt R ctx (uuid (closed_engine eng)) (e, d)"
        using t1 t2 Re by (simp add: time_Sleep_def import_attempt_def)
      show ?thesis
      proof (intro exI [of _ "(e, d) # as"] conjI)
        show "trace w' = trace w @ concat (map (import_attempt R ctx (uuid (closed_engine eng))) ((e, d) # as))"
          using as(1) t3 by simp
        show "length ((e, d) # as) \<le> maxRetryTimes - i"
          using as(2,4) True by (auto split: if_splits)
        show "\<forall>a\<in>set (butlast ((e, d) # as)). R (fst a)"
          using as(3) Re by auto
        show "if (e, d) # as = []
            then \<not> i < maxRetryTimes \<and>
                 res = Annotatef err import_retry_format
                         [ArgUUID (uuid (closed_engine eng)), ArgInt (int maxRetryTimes)]
            else if R (fst (last ((e, d) # as)))
            then length ((e, d) # as) = maxRetryTimes - i \<and>
                 res = Annotatef (fst (last ((e, d) # as))) import_retry_format
                         [ArgUUID (uuid (closed_engine eng)), ArgInt (int maxRetryTimes)]
            else res = fst (last ((e, d) # as))"
          using as(2,4) True Re by (auto split: if_splits)
      qed
    qed
  qed
qed

lemma Import_loop_bstate:
  assumes "\<And>s. P s \<Longrightarrow> P (snd (ab_ImportEngine (backend (closed_engine eng)) ctx (uuid (closed_engine eng)) s))"
    and "\<And>s. P s \<Longrightarrow> P (snd (ab_RetryImportDelay (backend (closed_engine eng)) s))"
    and "P (bstate w)"
  shows "P (bstate (snd (Import_loop R eng ctx i err w)))"
  using assms
proof (induction R eng ctx i err w rule: Import_loop.induct)
  case (1 R eng ctx i err w)
  show ?case
  proof (cases "i < maxRetryTimes")
    case False
    then show ?thesis using "1.prems"(3) by (simp add: Import_loop.simps [of R eng ctx i err w])
  next
    case True
    obtain e w1 where c1: "call_ImportEngine (backend (closed_engine eng)) ctx (uuid (closed_engine eng)) w = (e, w1)"
      by fastforce
    then have p1: "P (bstate w1)"
      using "1.prems"(1) [OF "1.prems"(3)] by (auto simp: call_ImportEngine_def split: prod.splits)
    show ?thesis
    proof (cases "R e")
      case False
      with True c1 p1 show ?thesis by (simp add: Import_loop.simps [of R eng ctx i err w])
    next
      case Re: True
      obtain d w2 where c2: "call_RetryImportDelay (backend (closed_engine eng)) w1 = (d, w2)"
        by fastforce
      then have p2: "P (bstate (time_Sleep d w2))"
        using "1.prems"(2) [OF p1] by (auto simp: call_RetryImportDelay_def time_Sleep_def split: prod.splits)
      have "P (bstate (snd (Import_loop R eng ctx (i + 1) e (time_Sleep d w2))))"
        using "1.IH" [OF True c1 [symmetric] _ c2 [symmetric] "1.prems"(1,2) p2] Re by simp
      with True Re c1 c2 show ?thesis by (simp add: Import_loop.simps [of R eng ctx i err w])
    qed
  qed
qed

lemma WriteRows_retry_trace:
  assumes "WriteRows_retry R eng ctx columnNames r i err w = (ex, err', w')"
  shows "\<exists>errs. trace w' = trace w @ write_attempts eng ctx columnNames (r, errs) \<and>
           length errs \<le> maxRetryTimes - i \<and>
           (\<forall>e\<in>set (butlast errs). retryable_failure R e) \<and>
           (case ex of
              ContinueOutside \<Rightarrow> errs \<noteq> [] \<and> last errs = None
            | Return e \<Rightarrow> errs \<noteq> [] \<and> last errs = e \<and> e \<noteq> None \<and> \<not> R e
            | LoopEnd \<Rightarrow> length errs = maxRetryTimes - i \<and> (\<forall>e\<in>set errs. retryable_failure R e) \<and>
                         err' = (if errs = [] then err else last errs))"
  using assms
proof (induction R eng ctx columnNames r i err w rule: WriteRows_retry.induct)
  case (1 R eng ctx columnNames r i err w)
  show ?case
  proof (cases "i < maxRetryTimes")
    case False
    with "1.prems" have "ex = LoopEnd" "err' = err" "w' = w"
      by (simp_all add: WriteRows_retry.simps [of R eng ctx columnNames r i err w])
    with False show ?thesis by (intro exI [of _ "[]"]) (simp add: write_attempts_def)
  next
    case True
    obtain e w1 where c1: "call_WriteRows (backend (opened_engine eng)) ctx (uuid (opened_engine eng))
                (tableName eng) columnNames (ts eng) r w = (e, w1)"
      by fastforce
    then have t1: "trace w1 = trace w @ write_attempts eng ctx columnNames (r, [e])"
      by (auto simp: call_WriteRows_def write_attempts_def split: prod.splits)
    consider (ok) "e = None" | (fatal) "e \<noteq> None" "\<not> R e" | (again) "e \<noteq> None" "R e"
      by blast
    then show ?thesis
    proof cases
      case ok
      with True c1 "1.prems" have "ex = ContinueOutside" "w' = w1"
        by (auto simp add: WriteRows_retry.simps [of R eng ctx columnNames r i err w])
      with ok True t1 show ?thesis
        by (intro exI [of _ "[e]"]) simp
    next
      case fatal
      with True c1 "1.prems" have "ex = Return e" "w' = w1"
        by (auto simp add: WriteRows_retry.simps [of R eng ctx columnNames r i err w])
      with fatal True t1 show ?thesis
        by (intro exI [of _ "[e]"]) simp
    next
      case again
      with True c1 "1.prems"
      have rec: "WriteRows_retry R eng ctx columnNames r (i + 1) e w1 = (ex, err', w')"
        by (simp add: WriteRows_retry.simps [of R eng ctx columnNames r i err w])
      from "1.IH" [OF True c1 [symmetric] again(1) again(2) rec]
      obtain errs where errs:
        "trace w' = trace w1 @ write_attempts eng ctx columnNames (r, errs)"
        "length errs \<le> maxRetryTimes - (i + 1)"
        "\<forall>e\<in>set (butlast errs). retryable_failure R e"
        "case ex of
              ContinueOutside \<Rightarrow> errs \<noteq> [] \<and> last errs = None
            | Return e \<Rightarrow> errs \<noteq> [] \<and> last errs = e \<and> e \<noteq> None \<and> \<not> R e
            | LoopEnd \<Rightarrow> length errs = maxRetryTimes - (i + 1) \<and> (\<forall>e\<in>set errs. retryable_failure R e) \<and>
                         err' = (if errs = [] then e else last errs)"
        by auto
      show ?thesis
      proof (intro exI [of _ "e # errs"] conjI)
        show "trace w' = trace w @ write_attempts eng ctx columnNames (r, e # errs)"
          using errs(1) t1 by (simp add: write_attempts_def)
        show "length (e # errs) \<le> maxRetryTimes - i"
          using errs(2) True by simp
        show "\<forall>e\<in>set (butlast (e # errs)). retryable_failure R e"
          using errs(3) again by (auto simp: retryable_failure_def)
        show "case ex of
              ContinueOutside \<Rightarrow> e # errs \<noteq> [] \<and> last (e # errs) = None
            | Return x \<Rightarrow> e # errs \<noteq> [] \<and> last (e # errs) = x \<and> x \<noteq> None \<and> \<not> R x
            | LoopEnd \<Rightarrow> length (e # errs) = maxRetryTimes - i \<and> (\<forall>x\<in>set (e # errs). retryable_failure R x) \<and>
                         err' = (if e # errs = [] then err else last (e # errs))"
          using errs(2,4) True again by (auto simp: retryable_failure_def split: loop_exit.splits)
      qed
    qed
  qed
qed

lemma WriteRows_outside_trace:
  assumes "WriteRows_outside R eng ctx columnNames cs err w = (res, w')"
  shows "\<exists>results.
           trace w' = trace w @ concat (map (write_attempts eng ctx columnNames) (zip cs results)) \<and>
           length results \<le> length cs \<and>
           (\<forall>errs\<in>set results. errs \<noteq> [] \<and> length errs \<le> maxRetryTimes \<and>
              (\<forall>e\<in>set (butlast errs). retryable_failure R e)) \<and>
           (\<forall>errs\<in>set (butlast results). last errs = None) \<and>
           (if results = [] then cs = [] \<and> res = None
            else if last (last results) = None then length results = length cs \<and> res = None
            else if R (last (last results))
            then length (last results) = maxRetryTimes \<and>
                 res = Annotatef (last (last results))
                         write_retry_format
                         [ArgString (tableName eng), ArgInt (int maxRetryTimes)]
            else res = last (last results))"
  using assms
proof (induction cs arbitrary: err w)
  case Nil
  then show ?case by (intro exI [of _ "[]"]) simp
next
  case (Cons c cs)
  obtain ex err1 w1 where r: "WriteRows_retry R eng ctx columnNames c 0 err w = (ex, err1, w1)"
    using prod_cases3 by blast
  have "\<exists>errs.
    trace w1 = trace w @ write_attempts eng ctx columnNames (c, errs) \<and>
    length errs \<le> maxRetryTimes \<and>
    (\<forall>e\<in>set (butlast errs). retryable_failure R e) \<and>
    (case ex of
       ContinueOutside \<Rightarrow> errs \<noteq> [] \<and> last errs = None
     | Return e \<Rightarrow> errs \<noteq> [] \<and> last errs = e \<and> e \<noteq> None \<and> \<not> R e
     | LoopEnd \<Rightarrow> length errs = maxRetryTimes \<and> (\<forall>e\<in>set errs. retryable_failure R e) \<and>
                  err1 = (if errs = [] then err else last errs))"
    using WriteRows_retry_trace [OF r] by (simp only: diff_zero)
  then obtain errs where errs:
    "trace w1 = trace w @ write_attempts eng ctx columnNames (c, errs)"
    "length errs \<le> maxRetryTimes"
    "\<forall>e\<in>set (butlast errs). retryable_failure R e"
    "case ex of
       ContinueOutside \<Rightarrow> errs \<noteq> [] \<and> last errs = None
     | Return e \<Rightarrow> errs \<noteq> [] \<and> last errs = e \<and> e \<noteq> None \<and> \<not> R e
     | LoopEnd \<Rightarrow> length errs = maxRetryTimes \<and> (\<forall>e\<in>set errs. retryable_failure R e) \<and>
                  err1 = (if errs = [] then err else last errs)"
    by blast
  show ?case
  proof (cases ex)
    case ContinueOutside
    with r Cons.prems have "WriteRows_outside R eng ctx columnNames cs err1 w1 = (res, w')"
      by simp
    from Cons.IH [OF this] obtain results where results:
      "trace w' = trace w1 @ concat (map (write_attempts eng ctx columnNames) (zip cs results))"
      "length results \<le> length cs"
      "\<forall>errs\<in>set results. errs \<noteq> [] \<and> length errs \<le> maxRetryTimes \<and>
              (\<forall>e\<in>set (butlast errs). retryable_failure R e)"
      "\<forall>errs\<in>set (butlast results). last errs = None"
      "if results = [] then cs = [] \<and> res = None
            else if last (last results) = None then length results = length cs \<and> res = None
            else if R (last (last results))
            then length (last results) = maxRetryTimes \<and>
                 res = Annotatef (last (last results))
                         write_retry_format
                         [ArgString (tableName eng), ArgInt (int maxRetryTimes)]
            else res = last (last results)"
      by blast
    from errs(4) ContinueOutside have ok: "errs \<noteq> []" "last errs = None" by simp_all
    show ?thesis
    proof (intro exI [of _ "errs # results"] conjI)
      show "trace w' = trace w @ concat (map (write_attempts eng ctx columnNames) (zip (c # cs) (errs # results)))"
        using results(1) errs(1) by simp
      show "length (errs # results) \<le> length (c # cs)"
        using results(2) by simp
      show "\<forall>errs\<in>set (errs # results). errs \<noteq> [] \<and> length errs \<le> maxRetryTimes \<and>
              (\<forall>e\<in>set (butlast errs). retryable_failure R e)"
        using results(3) errs(2,3) ok by simp
      show "\<forall>errs\<in>set (butlast (errs # results)). last errs = None"
        using results(4) ok by simp
      show "if errs # results = [] then c # cs = [] \<and> res = None
            else if last (last (errs # results)) = None
            then length (errs # results) = length (c # cs) \<and> res = None
            else if R (last (last (errs # results)))
            then length (last (errs # results)) = maxRetryTimes \<and>
                 res = Annotatef (last (last (errs # results)))
                         write_retry_format
                         [ArgString (tableName eng), ArgInt (int maxRetryTimes)]
            else res = last (last (errs # results))"
        using results(5) ok by (simp split: if_splits)
    qed
  next
    case (Return e)
    with r Cons.prems have res: "res = e" "w' = w1"
      by simp_all
    from errs(4) Return have e: "errs \<noteq> []" "last errs = e" "e \<noteq> None" "\<not> R e" by simp_all
    show ?thesis
      using res e errs(1,2,3) by (intro exI [of _ "[errs]"]) auto
  next
    case LoopEnd
    with r Cons.prems have res: "res = Annotatef err1
                         write_retry_format
                         [ArgString (tableName eng), ArgInt (int maxRetryTimes)]" "w' = w1"
      by simp_all
    from errs(4) LoopEnd have e: "length errs = maxRetryTimes" "\<forall>e\<in>set errs. retryable_failure R e"
      "err1 = (if errs = [] then err else last errs)" by simp_all
    from e(1) have ne: "errs \<noteq> []" by (auto simp: maxRetryTimes_def)
    with e(2) have "retryable_failure R (last errs)" by simp
    then have "last errs \<noteq> None" "R (last errs)" by (simp_all add: retryable_failure_def)
    then show ?thesis
      using res e ne errs(1,2,3) by (intro exI [of _ "[errs]"]) auto
  qed
qed

lemma import_attempt_no_close:
  "ev \<in> set (concat (map (import_attempt R ctx u) as)) \<Longrightarrow> \<not> is_CloseEngine ev \<and> \<not> is_ResetEngine ev"
  by (auto simp: import_attempt_def split: if_splits)

lemma Import_conform:
  assumes "Import R eng ctx w = (res, w')"
  shows "\<exists>attempts.
           trace w' = trace w @ concat (map (import_attempt R ctx (uuid (closed_engine eng))) attempts) \<and>
           import_results_conform R (uuid (closed_engine eng)) attempts res"
proof -
  from assms have "Import_loop R eng ctx 0 None w = (res, w')"
    by (simp add: Import_def)
  from Import_loop_trace [OF this] obtain as where as:
    "trace w' = trace w @ concat (map (import_attempt R ctx (uuid (closed_engine eng))) as) \<and>
    length as \<le> maxRetryTimes - 0 \<and>
    (\<forall>a\<in>set (butlast as). R (fst a)) \<and>
    (if as = []
            then \<not> 0 < maxRetryTimes \<and>
                 res = Annotatef None import_retry_format
                         [ArgUUID (uuid (closed_engine eng)), ArgInt (int maxRetryTimes)]
            else if R (fst (last as))
            then length as = maxRetryTimes - 0 \<and>
                 res = Annotatef (fst (last as)) import_retry_format
                         [ArgUUID (uuid (closed_engine eng)), ArgInt (int maxRetryTimes)]
            else res = fst (last as))" ..
  note as1 = as [THEN conjunct1]
  note as2 = as [THEN conjunct2, THEN conjunct1]
  note as3 = as [THEN conjunct2, THEN conjunct2, THEN conjunct1]
  note as4 = as [THEN conjunct2, THEN conjunct2, THEN conjunct2]
  have ne: "as \<noteq> []"
  proof
    assume "as = []"
    with as4 have "\<not> 0 < maxRetryTimes" by simp
    then show False by (simp add: maxRetryTimes_def)
  qed
  have len: "length as \<le> 3"
    using as2 by (simp add: maxRetryTimes_def)
  have fin: "if R (fst (last as))
       then length as = 3 \<and>
            res = Annotatef (fst (last as))
                    import_retry_format
                    [ArgUUID (uuid (closed_engine eng)), ArgInt 3]
       else res = fst (last as)"
  proof (cases "R (fst (last as))")
    case True
    with as4 ne have "length as = maxRetryTimes - 0 \<and>
                 res = Annotatef (fst (last as)) import_retry_format
                         [ArgUUID (uuid (closed_engine eng)), ArgInt (int maxRetryTimes)]"
      by simp
    with True show ?thesis by (simp add: maxRetryTimes_def)
  next
    case False
    with as4 ne show ?thesis by simp
  qed
  have "import_results_conform R (uuid (closed_engine eng)) as res"
    unfolding import_results_conform_def by (intro conjI ne len as3 fin)
  with as1 show ?thesis by (intro exI [of _ as] conjI)
qed

lemma Annotatef_eq_None: "Annotatef err format args = None \<longleftrightarrow> err = None"
  by (cases err) (simp_all add: Annotatef_def)

text \<open>
  Claim C4. \<^verbatim>\<open>ClosedEngine.Import\<close> calls the backend's \<^verbatim>\<open>ImportEngine\<close> at most 3
  times. After a retryable result it asks the backend for the delay and sleeps that long
  before the next attempt. A result that is not retryable is returned at once, with no
  sleep and no further attempt; success is such a result whenever
  \<^verbatim>\<open>IsRetryableError(nil)\<close> is false. After 3 retryable results the last one is
  returned, annotated with the engine's UUID and the bound 3.
\<close>
theorem Import_retries:
  assumes "Import IsRetryableError eng ctx w = (res, w')"
  shows "\<exists>attempts.
           trace w' =
             trace w @ concat (map (import_attempt IsRetryableError ctx (uuid (closed_engine eng))) attempts) \<and>
           import_results_conform IsRetryableError (uuid (closed_engine eng)) attempts res \<and>
           (\<not> IsRetryableError None \<longrightarrow> (res = None \<longleftrightarrow> fst (last attempts) = None))"
proof -
  from Import_conform [OF assms] obtain attempts where a:
    "trace w' = trace w @ concat (map (import_attempt IsRetryableError ctx (uuid (closed_engine eng))) attempts) \<and>
     import_results_conform IsRetryableError (uuid (closed_engine eng)) attempts res" ..
  note a1 = a [THEN conjunct1] and a2 = a [THEN conjunct2]
  have c: "\<not> IsRetryableError None \<longrightarrow> (res = None \<longleftrightarrow> fst (last attempts) = None)"
  proof (cases "IsRetryableError (fst (last attempts))")
    case True
    with a2 have "res = Annotatef (fst (last attempts)) import_retry_format
                    [ArgUUID (uuid (closed_engine eng)), ArgInt 3]"
      by (simp add: import_results_conform_def)
    then have "res = None \<longleftrightarrow> fst (last attempts) = None"
      by (simp add: Annotatef_eq_None)
    then show ?thesis by simp
  next
    case False
    with a2 have "res = fst (last attempts)"
      by (simp add: import_results_conform_def)
    then show ?thesis by simp
  qed
  show ?thesis
    by (rule exI [of _ attempts]) (rule conjI [OF a1 conjI [OF a2 c]])
qed

theorem Import_retries_witness:
  "Import retry_transient closed7 (Ctx 0) (fresh [Some (Cause Transient), Some (Cause Permanent)]) =
     (Some (Cause Permanent),
      snd (Import retry_transient closed7 (Ctx 0)
             (fresh [Some (Cause Transient), Some (Cause Permanent)]))) \<and>
   trace (snd (Import retry_transient closed7 (Ctx 0)
                 (fresh [Some (Cause Transient), Some (Cause Permanent)]))) =
     [CallImportEngine (Ctx 0) 7 (Some (Cause Transient)), CallRetryImportDelay 1000, Sleep 1000,
      CallImportEngine (Ctx 0) 7 (Some (Cause Permanent))] \<and>
   (\<exists>attempts.
      trace (snd (Import retry_transient closed7 (Ctx 0)
                    (fresh [Some (Cause Transient), Some (Cause Permanent)]))) =
        trace (fresh [Some (Cause Transient), Some (Cause Permanent)]) @
        concat (map (import_attempt retry_transient (Ctx 0) (uuid (closed_engine closed7))) attempts) \<and>
      import_results_conform retry_transient (uuid (closed_engine closed7)) attempts
        (Some (Cause Permanent)) \<and>
      (\<not> retry_transient None \<longrightarrow> (Some (Cause Permanent) = None \<longleftrightarrow> fst (last attempts) = None)))"
proof -
  have run: "Import retry_transient closed7 (Ctx 0) (fresh [Some (Cause Transient), Some (Cause Permanent)]) =
     (Some (Cause Permanent),
      snd (Import retry_transient closed7 (Ctx 0)
             (fresh [Some (Cause Transient), Some (Cause Permanent)])))"
    by code_simp
  have tr: "trace (snd (Import retry_transient closed7 (Ctx 0)
                 (fresh [Some (Cause Transient), Some (Cause Permanent)]))) =
     [CallImportEngine (Ctx 0) 7 (Some (Cause Transient)), CallRetryImportDelay 1000, Sleep 1000,
      CallImportEngine (Ctx 0) 7 (Some (Cause Permanent))]"
    by code_simp
  show ?thesis
    by (rule conjI [OF run conjI [OF tr Import_retries [OF run]]])
qed

lemma Import_events:
  assumes "Import R eng ctx w = (res, w')"
  shows "\<exists>evs. trace w' = trace w @ evs \<and>
           (\<forall>ev\<in>set evs. \<not> is_CloseEngine ev \<and> \<not> is_ResetEngine ev)"
proof -
  from Import_conform [OF assms] obtain attempts where a:
    "trace w' = trace w @ concat (map (import_attempt R ctx (uuid (closed_engine eng))) attempts) \<and>
     import_results_conform R (uuid (closed_engine eng)) attempts res" ..
  have "\<forall>ev\<in>set (concat (map (import_attempt R ctx (uuid (closed_engine eng))) attempts)).
          \<not> is_CloseEngine ev \<and> \<not> is_ResetEngine ev"
    by (rule ballI) (rule import_attempt_no_close)
  with a [THEN conjunct1] show ?thesis
    by (intro exI [of _ "concat (map (import_attempt R ctx (uuid (closed_engine eng))) attempts)"] conjI)
qed

text \<open>
  Claim C8. If the import inside \<^verbatim>\<open>UnsafeImportAndReset\<close> returns an error, then
  \<^verbatim>\<open>UnsafeImportAndReset\<close> returns that error and does not call the backend's
  \<^verbatim>\<open>ResetEngine\<close>.
\<close>
theorem UnsafeImportAndReset_import_error:
  assumes "Import IsRetryableError
             \<lparr>closed_engine =
                \<lparr>backend = abstract be, logger = makeLogger ''<import-and-reset>'' u, uuid = u\<rparr>\<rparr>
             ctx w = (Some e, w')"
  shows "UnsafeImportAndReset IsRetryableError be ctx u w = (Some e, w') \<and>
         (\<exists>evs. trace w' = trace w @ evs \<and> (\<forall>ev\<in>set evs. \<not> is_ResetEngine ev))"
proof -
  have r: "UnsafeImportAndReset IsRetryableError be ctx u w = (Some e, w')"
    using assms by (simp add: UnsafeImportAndReset_def)
  from Import_events [OF assms] obtain evs where evs:
    "trace w' = trace w @ evs \<and> (\<forall>ev\<in>set evs. \<not> is_CloseEngine ev \<and> \<not> is_ResetEngine ev)" ..
  then have "trace w' = trace w @ evs \<and> (\<forall>ev\<in>set evs. \<not> is_ResetEngine ev)"
    by simp
  then have "\<exists>evs. trace w' = trace w @ evs \<and> (\<forall>ev\<in>set evs. \<not> is_ResetEngine ev)" ..
  with r show ?thesis ..
qed

theorem UnsafeImportAndReset_import_error_witness:
  "Import retry_transient
     \<lparr>closed_engine =
        \<lparr>backend = abstract (MakeBackend (fake_backend [])),
         logger = makeLogger ''<import-and-reset>'' 7, uuid = 7\<rparr>\<rparr>
     (Ctx 0) (fresh [Some (Cause Permanent)]) =
     (Some (Cause Permanent),
      snd (UnsafeImportAndReset retry_transient (MakeBackend (fake_backend [])) (Ctx 0) 7
             (fresh [Some (Cause Permanent)]))) \<and>
   trace (snd (UnsafeImportAndReset retry_transient (MakeBackend (fake_backend [])) (Ctx 0) 7
                 (fresh [Some (Cause Permanent)]))) =
     [CallImportEngine (Ctx 0) 7 (Some (Cause Permanent))] \<and>
   UnsafeImportAndReset retry_transient (MakeBackend (fake_backend [])) (Ctx 0) 7
     (fresh [Some (Cause Permanent)]) =
     (Some (Cause Permanent),
      snd (UnsafeImportAndReset retry_transient (MakeBackend (fake_backend [])) (Ctx 0) 7
             (fresh [Some (Cause Permanent)]))) \<and>
   (\<exists>evs. trace (snd (UnsafeImportAndReset retry_transient (MakeBackend (fake_backend [])) (Ctx 0) 7
                        (fresh [Some (Cause Permanent)]))) =
            trace (fresh [Some (Cause Permanent)]) @ evs \<and>
          (\<forall>ev\<in>set evs. \<not> is_ResetEngine ev))"
proof -
  have run: "Import retry_transient
     \<lparr>closed_engine =
        \<lparr>backend = abstract (MakeBackend (fake_backend [])),
         logger = makeLogger ''<import-and-reset>'' 7, uuid = 7\<rparr>\<rparr>
     (Ctx 0) (fresh [Some (Cause Permanent)]) =
     (Some (Cause Permanent),
      snd (UnsafeImportAndReset retry_transient (MakeBackend (fake_backend [])) (Ctx 0) 7
             (fresh [Some (Cause Permanent)])))"
    by code_simp
  have tr: "trace (snd (UnsafeImportAndReset retry_transient (MakeBackend (fake_backend [])) (Ctx 0) 7
                 (fresh [Some (Cause Permanent)]))) =
     [CallImportEngine (Ctx 0) 7 (Some (Cause Permanent))]"
    by code_simp
  show ?thesis
    by (rule conjI [OF run conjI [OF tr UnsafeImportAndReset_import_error [OF run]]])
qed

lemma call_ResetEngine_result:
  assumes "call_ResetEngine ab ctx u w = (err, w')"
  shows "trace w' = trace w @ [CallResetEngine ctx u err]"
    and "bstate w' = snd (ab_ResetEngine ab ctx u (bstate w))"
  using assms by (auto simp: call_ResetEngine_def split: prod.splits)

lemma Import_keeps:
  assumes "keeps P (ab_ImportEngine (backend (closed_engine eng)) ctx (uuid (closed_engine eng)))"
    and "keeps P (ab_RetryImportDelay (backend (closed_engine eng)))"
    and "P (bstate w)"
  shows "P (bstate (snd (Import R eng ctx w)))"
  unfolding Import_def
  by (rule Import_loop_bstate) (use assms in \<open>simp_all add: keeps_def\<close>)

lemma UnsafeImportAndReset_trace:
  assumes "UnsafeImportAndReset IsRetryableError be ctx u w = (res, w')"
  shows "\<exists>evs.
           trace w' = trace w @ evs \<and>
           (\<forall>ev\<in>set evs. \<not> is_CloseEngine ev) \<and>
           (res = None \<longrightarrow>
              (\<exists>attempts. attempts \<noteq> [] \<and>
                 evs = concat (map (import_attempt IsRetryableError ctx u) attempts) @
                       [CallResetEngine ctx u None])) \<and>
           (keeps P (ab_ImportEngine (abstract be) ctx u) \<and>
            keeps P (ab_RetryImportDelay (abstract be)) \<and>
            keeps P (ab_ResetEngine (abstract be) ctx u) \<and> P (bstate w) \<longrightarrow> P (bstate w'))"
proof -
  define ce where "ce = \<lparr>closed_engine =
      \<lparr>backend = abstract be, logger = makeLogger ''<import-and-reset>'' u, uuid = u\<rparr>\<rparr>"
  have ce: "backend (closed_engine ce) = abstract be" "uuid (closed_engine ce) = u"
    by (simp_all add: ce_def)
  obtain e w1 where imp: "Import IsRetryableError ce ctx w = (e, w1)"
    by fastforce
  from Import_conform [OF imp] obtain attempts where a:
    "trace w1 = trace w @ concat (map (import_attempt IsRetryableError ctx (uuid (closed_engine ce))) attempts) \<and>
     import_results_conform IsRetryableError (uuid (closed_engine ce)) attempts e" ..
  let ?imports = "concat (map (import_attempt IsRetryableError ctx u) attempts)"
  from a have t1: "trace w1 = trace w @ ?imports" and ne: "attempts \<noteq> []"
    by (simp_all add: ce import_results_conform_def)
  have nc: "\<forall>ev\<in>set ?imports. \<not> is_CloseEngine ev"
  proof
    fix ev assume "ev \<in> set ?imports"
    from import_attempt_no_close [OF this] show "\<not> is_CloseEngine ev" ..
  qed
  have inv1: "P (bstate w1)"
    if "keeps P (ab_ImportEngine (abstract be) ctx u)" "keeps P (ab_RetryImportDelay (abstract be))"
       "P (bstate w)"
    using Import_keeps [of P ce ctx w IsRetryableError] that imp by (simp add: ce)
  show ?thesis
  proof (cases e)
    case (Some x)
    with imp assms have r: "res = e" "w' = w1"
      by (simp_all add: UnsafeImportAndReset_def ce_def)
    show ?thesis
    proof (intro exI [of _ ?imports] conjI)
      show "trace w' = trace w @ ?imports" using t1 r by simp
      show "\<forall>ev\<in>set ?imports. \<not> is_CloseEngine ev" by (rule nc)
      show "res = None \<longrightarrow>
              (\<exists>attempts'. attempts' \<noteq> [] \<and>
                 ?imports = concat (map (import_attempt IsRetryableError ctx u) attempts') @
                       [CallResetEngine ctx u None])"
        using r Some by simp
      show "keeps P (ab_ImportEngine (abstract be) ctx u) \<and>
            keeps P (ab_RetryImportDelay (abstract be)) \<and>
            keeps P (ab_ResetEngine (abstract be) ctx u) \<and> P (bstate w) \<longrightarrow> P (bstate w')"
        using inv1 r by simp
    qed
  next
    case None
    with imp assms have r: "call_ResetEngine (abstract be) ctx u w1 = (res, w')"
      by (simp add: UnsafeImportAndReset_def ce_def)
    note t2 = call_ResetEngine_result [OF r]
    show ?thesis
    proof (intro exI [of _ "?imports @ [CallResetEngine ctx u res]"] conjI)
      show "trace w' = trace w @ ?imports @ [CallResetEngine ctx u res]"
        using t1 t2(1) by simp
      show "\<forall>ev\<in>set (?imports @ [CallResetEngine ctx u res]). \<not> is_CloseEngine ev"
        using nc by simp
      show "res = None \<longrightarrow>
              (\<exists>attempts'. attempts' \<noteq> [] \<and>
                 ?imports @ [CallResetEngine ctx u res] =
                 concat (map (import_attempt IsRetryableError ctx u) attempts') @
                       [CallResetEngine ctx u None])"
      proof
        assume "res = None"
        then have "attempts \<noteq> [] \<and> ?imports @ [CallResetEngine ctx u res] =
                 concat (map (import_attempt IsRetryableError ctx u) attempts) @
                       [CallResetEngine ctx u None]"
          using ne by simp
        then show "\<exists>attempts'. attempts' \<noteq> [] \<and>
                 ?imports @ [CallResetEngine ctx u res] =
                 concat (map (import_attempt IsRetryableError ctx u) attempts') @
                       [CallResetEngine ctx u None]" ..
      qed
      show "keeps P (ab_ImportEngine (abstract be) ctx u) \<and>
            keeps P (ab_RetryImportDelay (abstract be)) \<and>
            keeps P (ab_ResetEngine (abstract be) ctx u) \<and> P (bstate w) \<longrightarrow> P (bstate w')"
      proof
        assume k: "keeps P (ab_ImportEngine (abstract be) ctx u) \<and>
            keeps P (ab_RetryImportDelay (abstract be)) \<and>
            keeps P (ab_ResetEngine (abstract be) ctx u) \<and> P (bstate w)"
        then have "P (bstate w1)" using inv1 by simp
        with k have "P (snd (ab_ResetEngine (abstract be) ctx u (bstate w1)))"
          by (simp add: keeps_def)
        then show "P (bstate w')" using t2(2) by simp
      qed
    qed
  qed
qed

lemma UnsafeImportAndReset_reset:
  assumes "UnsafeImportAndReset IsRetryableError be ctx u w = (res, w')"
    and "Import IsRetryableError
           \<lparr>closed_engine =
              \<lparr>backend = abstract be, logger = makeLogger ''<import-and-reset>'' u, uuid = u\<rparr>\<rparr>
           ctx w = (e, w1)"
  shows "e \<noteq> None \<longrightarrow> res = e \<and> w' = w1"
    and "e = None \<longrightarrow>
           ab_ResetEngine (abstract be) ctx u (bstate w1) = (res, bstate w') \<and>
           w' = w1\<lparr>bstate := bstate w', trace := trace w1 @ [CallResetEngine ctx u res]\<rparr>"
proof -
  show "e \<noteq> None \<longrightarrow> res = e \<and> w' = w1"
  proof
    assume "e \<noteq> None"
    with assms show "res = e \<and> w' = w1"
      by (simp add: UnsafeImportAndReset_def)
  qed
  show "e = None \<longrightarrow>
           ab_ResetEngine (abstract be) ctx u (bstate w1) = (res, bstate w') \<and>
           w' = w1\<lparr>bstate := bstate w', trace := trace w1 @ [CallResetEngine ctx u res]\<rparr>"
  proof
    assume "e = None"
    with assms have r: "call_ResetEngine (abstract be) ctx u w1 = (res, w')"
      by (simp add: UnsafeImportAndReset_def)
    obtain r0 s0 where a: "ab_ResetEngine (abstract be) ctx u (bstate w1) = (r0, s0)"
      by (cases "ab_ResetEngine (abstract be) ctx u (bstate w1)")
    from r a have "res = r0" "w' = w1\<lparr>bstate := s0, trace := trace w1 @ [CallResetEngine ctx u r0]\<rparr>"
      by (auto simp: call_ResetEngine_def)
    with a show "ab_ResetEngine (abstract be) ctx u (bstate w1) = (res, bstate w') \<and>
           w' = w1\<lparr>bstate := bstate w', trace := trace w1 @ [CallResetEngine ctx u res]\<rparr>"
      by simp
  qed
qed

text \<open>
  Claim C5. \<^verbatim>\<open>UnsafeImportAndReset\<close> never calls the backend's \<^verbatim>\<open>CloseEngine\<close>. When
  it returns \<^verbatim>\<open>nil\<close>, its calls were the attempts of the import on that engine, at
  least one, followed by one \<^verbatim>\<open>ResetEngine\<close> on that engine that returned \<^verbatim>\<open>nil\<close>.
  Whatever property of the backend's state the backend's import, delay and reset operations
  keep (such as: the engine is open and writable) still holds afterwards. When the import
  returns an error, \<^verbatim>\<open>UnsafeImportAndReset\<close> returns it and leaves the state as the
  import left it. When the import returns \<^verbatim>\<open>nil\<close>, the backend's \<^verbatim>\<open>ResetEngine\<close> is
  applied to the state the import left: its result is the result of
  \<^verbatim>\<open>UnsafeImportAndReset\<close>, the state it returns is the backend's state afterwards, and
  the call is the one event added to the trace.
\<close>
theorem UnsafeImportAndReset_never_closes:
  assumes "UnsafeImportAndReset IsRetryableError be ctx u w = (res, w')"
    and "Import IsRetryableError
           \<lparr>closed_engine =
              \<lparr>backend = abstract be, logger = makeLogger ''<import-and-reset>'' u, uuid = u\<rparr>\<rparr>
           ctx w = (e, w1)"
  shows "(\<exists>evs.
            trace w' = trace w @ evs \<and>
            (\<forall>ev\<in>set evs. \<not> is_CloseEngine ev) \<and>
            (res = None \<longrightarrow>
               (\<exists>attempts. attempts \<noteq> [] \<and>
                  evs = concat (map (import_attempt IsRetryableError ctx u) attempts) @
                        [CallResetEngine ctx u None])) \<and>
            (keeps P (ab_ImportEngine (abstract be) ctx u) \<and>
             keeps P (ab_RetryImportDelay (abstract be)) \<and>
             keeps P (ab_ResetEngine (abstract be) ctx u) \<and> P (bstate w) \<longrightarrow> P (bstate w'))) \<and>
         (e \<noteq> None \<longrightarrow> res = e \<and> w' = w1) \<and>
         (e = None \<longrightarrow>
            ab_ResetEngine (abstract be) ctx u (bstate w1) = (res, bstate w') \<and>
            w' = w1\<lparr>bstate := bstate w', trace := trace w1 @ [CallResetEngine ctx u res]\<rparr>)"
  by (rule conjI [OF UnsafeImportAndReset_trace [OF assms(1)]
        conjI [OF UnsafeImportAndReset_reset [OF assms]]])

lemma keeps_answer: "keeps (is_open u) answer"
  by (simp add: keeps_def answer_def is_open_def split: list.split)

theorem UnsafeImportAndReset_never_closes_witness:
  "UnsafeImportAndReset retry_transient (MakeBackend (fake_backend [])) (Ctx 0) 7
     (fresh [Some (Cause Transient), None, None]) =
     (None,
      snd (UnsafeImportAndReset retry_transient (MakeBackend (fake_backend [])) (Ctx 0) 7
             (fresh [Some (Cause Transient), None, None]))) \<and>
   trace (snd (UnsafeImportAndReset retry_transient (MakeBackend (fake_backend [])) (Ctx 0) 7
                 (fresh [Some (Cause Transient), None, None]))) =
     [CallImportEngine (Ctx 0) 7 (Some (Cause Transient)), CallRetryImportDelay 1000, Sleep 1000,
      CallImportEngine (Ctx 0) 7 None, CallResetEngine (Ctx 0) 7 None] \<and>
   keeps (is_open 7) (ab_ImportEngine (abstract (MakeBackend (fake_backend []))) (Ctx 0) 7) \<and>
   keeps (is_open 7) (ab_RetryImportDelay (abstract (MakeBackend (fake_backend [])))) \<and>
   keeps (is_open 7) (ab_ResetEngine (abstract (MakeBackend (fake_backend []))) (Ctx 0) 7) \<and>
   is_open 7 (bstate (fresh [Some (Cause Transient), None, None])) \<and>
   Import retry_transient
     \<lparr>closed_engine =
        \<lparr>backend = abstract (MakeBackend (fake_backend [])),
           logger = makeLogger ''<import-and-reset>'' 7, uuid = 7\<rparr>\<rparr>
     (Ctx 0) (fresh [Some (Cause Transient), None, None]) =
     (None,
      \<lparr>bstate = \<lparr>script = [None], open_engines = [7]\<rparr>,
         trace = [CallImportEngine (Ctx 0) 7 (Some (Cause Transient)), CallRetryImportDelay 1000,
                  Sleep 1000, CallImportEngine (Ctx 0) 7 None],
         openCounter = 0, closedCounter = 0\<rparr>) \<and>
   ab_ResetEngine (abstract (MakeBackend (fake_backend []))) (Ctx 0) 7
     \<lparr>script = [None], open_engines = [7]\<rparr> =
     (None, bstate (snd (UnsafeImportAndReset retry_transient (MakeBackend (fake_backend []))
                           (Ctx 0) 7 (fresh [Some (Cause Transient), None, None])))) \<and>
   bstate (snd (UnsafeImportAndReset retry_transient (MakeBackend (fake_backend [])) (Ctx 0) 7
                  (fresh [Some (Cause Transient), None, None]))) =
     \<lparr>script = [], open_engines = [7]\<rparr> \<and>
   (\<exists>evs.
      trace (snd (UnsafeImportAndReset retry_transient (MakeBackend (fake_backend [])) (Ctx 0) 7
                    (fresh [Some (Cause Transient), None, None]))) =
        trace (fresh [Some (Cause Transient), None, None]) @ evs \<and>
      (\<forall>ev\<in>set evs. \<not> is_CloseEngine ev) \<and>
      ((None :: fault error option) = None \<longrightarrow>
         (\<exists>attempts. attempts \<noteq> [] \<and>
            evs = concat (map (import_attempt retry_transient (Ctx 0) 7) attempts) @
                  [CallResetEngine (Ctx 0) 7 None])) \<and>
      (keeps (is_open 7) (ab_ImportEngine (abstract (MakeBackend (fake_backend []))) (Ctx 0) 7) \<and>
       keeps (is_open 7) (ab_RetryImportDelay (abstract (MakeBackend (fake_backend [])))) \<and>
       keeps (is_open 7) (ab_ResetEngine (abstract (MakeBackend (fake_backend []))) (Ctx 0) 7) \<and>
       is_open 7 (bstate (fresh [Some (Cause Transient), None, None]))
       \<longrightarrow> is_open 7 (bstate (snd (UnsafeImportAndReset retry_transient
                                      (MakeBackend (fake_backend [])) (Ctx 0) 7
                                      (fresh [Some (Cause Transient), None, None]))))))"
proof -
  let ?w = "fresh [Some (Cause Transient), None, None]"
  let ?be = "MakeBackend (fake_backend [])"
  let ?out = "UnsafeImportAndReset retry_transient ?be (Ctx 0) 7 ?w"
  have run: "?out = (None, snd ?out)"
    by code_simp
  have tr: "trace (snd ?out) =
     [CallImportEngine (Ctx 0) 7 (Some (Cause Transient)), CallRetryImportDelay 1000, Sleep 1000,
      CallImportEngine (Ctx 0) 7 None, CallResetEngine (Ctx 0) 7 None]"
    by code_simp
  have k1: "keeps (is_open 7) (ab_ImportEngine (abstract ?be) (Ctx 0) 7)"
    by (simp add: MakeBackend_def fake_backend_def keeps_answer)
  have k2: "keeps (is_open 7) (ab_RetryImportDelay (abstract ?be))"
    by (simp add: MakeBackend_def fake_backend_def keeps_def)
  have k3: "keeps (is_open 7) (ab_ResetEngine (abstract ?be) (Ctx 0) 7)"
    by (simp add: MakeBackend_def fake_backend_def keeps_answer)
  have o: "is_open 7 (bstate ?w)"
    by (simp add: fresh_def is_open_def)
  let ?w1 = "\<lparr>bstate = \<lparr>script = [None], open_engines = [7]\<rparr>,
         trace = [CallImportEngine (Ctx 0) 7 (Some (Cause Transient)), CallRetryImportDelay 1000,
                  Sleep 1000, CallImportEngine (Ctx 0) 7 None],
         openCounter = 0, closedCounter = 0\<rparr> :: (fake_state, nat list, fault) world"
  have imp: "Import retry_transient
     \<lparr>closed_engine =
        \<lparr>backend = abstract ?be, logger = makeLogger ''<import-and-reset>'' 7, uuid = 7\<rparr>\<rparr>
     (Ctx 0) ?w = (None, ?w1)"
    by code_simp
  note th = UnsafeImportAndReset_never_closes [OF run imp, of "is_open 7"]
  from th have "ab_ResetEngine (abstract ?be) (Ctx 0) 7 (bstate ?w1) = (None, bstate (snd ?out)) \<and>
      snd ?out = ?w1\<lparr>bstate := bstate (snd ?out),
                        trace := trace ?w1 @ [CallResetEngine (Ctx 0) 7 None]\<rparr>"
    by (simp only: simp_thms)
  then have rs: "ab_ResetEngine (abstract ?be) (Ctx 0) 7 \<lparr>script = [None], open_engines = [7]\<rparr> =
      (None, bstate (snd ?out))"
    by simp
  have bs: "bstate (snd ?out) = \<lparr>script = [], open_engines = [7]\<rparr>"
    by code_simp
  show ?thesis
    by (rule conjI [OF run conjI [OF tr conjI [OF k1 conjI [OF k2 conjI [OF k3 conjI [OF o
          conjI [OF imp conjI [OF rs conjI [OF bs th [THEN conjunct1]]]]]]]]]])
qed

text \<open>
  Claim C3. \<^verbatim>\<open>OpenedEngine.WriteRows\<close> asks the backend for its maximum chunk size, splits
  the rows, and writes the chunks one after the other in the order of the split. Each chunk
  is attempted at most 3 times; an attempt is repeated only after an error that is
  retryable; an error that is not retryable is returned at once; after 3 retryable failures
  on one chunk the last error is returned, annotated with the table name and the bound 3.
\<close>
theorem WriteRows_retries:
  assumes "ab_MaxChunkSize (backend (opened_engine eng)) (bstate w) = (n, s)"
    and "WriteRows IsRetryableError SplitIntoChunks eng ctx columnNames rows w = (res, w')"
  shows "\<exists>results.
           trace w' =
             trace w @ CallMaxChunkSize n #
             concat (map (write_attempts eng ctx columnNames) (zip (SplitIntoChunks rows n) results)) \<and>
           write_results_conform IsRetryableError (tableName eng) (SplitIntoChunks rows n) results res"
proof -
  define w1 where "w1 = w\<lparr>bstate := s, trace := trace w @ [CallMaxChunkSize n]\<rparr>"
  from assms have "WriteRows_outside IsRetryableError eng ctx columnNames (SplitIntoChunks rows n) None w1
                     = (res, w')"
    by (simp add: WriteRows_def call_MaxChunkSize_def w1_def)
  from WriteRows_outside_trace [OF this] obtain results where r:
    "trace w' = trace w1 @ concat (map (write_attempts eng ctx columnNames) (zip (SplitIntoChunks rows n) results)) \<and>
           length results \<le> length (SplitIntoChunks rows n) \<and>
           (\<forall>errs\<in>set results. errs \<noteq> [] \<and> length errs \<le> maxRetryTimes \<and>
              (\<forall>e\<in>set (butlast errs). retryable_failure IsRetryableError e)) \<and>
           (\<forall>errs\<in>set (butlast results). last errs = None) \<and>
           (if results = [] then SplitIntoChunks rows n = [] \<and> res = None
            else if last (last results) = None then length results = length (SplitIntoChunks rows n) \<and> res = None
            else if IsRetryableError (last (last results))
            then length (last results) = maxRetryTimes \<and>
                 res = Annotatef (last (last results)) write_retry_format
                         [ArgString (tableName eng), ArgInt (int maxRetryTimes)]
            else res = last (last results))" ..
  then have c: "write_results_conform IsRetryableError (tableName eng) (SplitIntoChunks rows n) results res"
    by (simp add: write_results_conform_def maxRetryTimes_def)
  from r have "trace w' = trace w @ CallMaxChunkSize n #
             concat (map (write_attempts eng ctx columnNames) (zip (SplitIntoChunks rows n) results))"
    by (simp add: w1_def)
  with c show ?thesis
    by (intro exI [of _ results] conjI)
qed

theorem WriteRows_retries_witness:
  "ab_MaxChunkSize (backend (opened_engine opened7))
     (bstate (fresh [Some (Cause Transient), None, Some (Cause Transient), Some (Cause Transient),
                     Some (Cause Transient)])) =
     (2, \<lparr>script = [Some (Cause Transient), None, Some (Cause Transient), Some (Cause Transient),
                    Some (Cause Transient)], open_engines = [7]\<rparr>) \<and>
   WriteRows retry_transient chunks_of opened7 (Ctx 0) [''c''] [1, 2, 3, 4, 5]
     (fresh [Some (Cause Transient), None, Some (Cause Transient), Some (Cause Transient),
             Some (Cause Transient)]) =
     (Some (Annotated (Cause Transient) write_retry_format [ArgString ''db.t'', ArgInt 3]),
      snd (WriteRows retry_transient chunks_of opened7 (Ctx 0) [''c''] [1, 2, 3, 4, 5]
             (fresh [Some (Cause Transient), None, Some (Cause Transient), Some (Cause Transient),
                     Some (Cause Transient)]))) \<and>
   trace (snd (WriteRows retry_transient chunks_of opened7 (Ctx 0) [''c''] [1, 2, 3, 4, 5]
             (fresh [Some (Cause Transient), None, Some (Cause Transient), Some (Cause Transient),
                     Some (Cause Transient)]))) =
     [CallMaxChunkSize 2,
      CallWriteRows (Ctx 0) 7 ''db.t'' [''c''] 99 [1, 2] (Some (Cause Transient)),
      CallWriteRows (Ctx 0) 7 ''db.t'' [''c''] 99 [1, 2] None,
      CallWriteRows (Ctx 0) 7 ''db.t'' [''c''] 99 [3, 4] (Some (Cause Transient)),
      CallWriteRows (Ctx 0) 7 ''db.t'' [''c''] 99 [3, 4] (Some (Cause Transient)),
      CallWriteRows (Ctx 0) 7 ''db.t'' [''c''] 99 [3, 4] (Some (Cause Transient))] \<and>
   (\<exists>results.
      trace (snd (WriteRows retry_transient chunks_of opened7 (Ctx 0) [''c''] [1, 2, 3, 4, 5]
             (fresh [Some (Cause Transient), None, Some (Cause Transient), Some (Cause Transient),
                     Some (Cause Transient)]))) =
        trace (fresh [Some (Cause Transient), None, Some (Cause Transient), Some (Cause Transient),
                      Some (Cause Transient)]) @ CallMaxChunkSize 2 #
        concat (map (write_attempts opened7 (Ctx 0) [''c'']) (zip (chunks_of [1, 2, 3, 4, 5] 2) results)) \<and>
      write_results_conform retry_transient (tableName opened7) (chunks_of [1, 2, 3, 4, 5] 2) results
        (Some (Annotated (Cause Transient) write_retry_format [ArgString ''db.t'', ArgInt 3])))"
proof -
  let ?S = "[Some (Cause Transient), None, Some (Cause Transient), Some (Cause Transient),
             Some (Cause Transient)]"
  let ?out = "WriteRows retry_transient chunks_of opened7 (Ctx 0) [''c''] [1, 2, 3, 4, 5] (fresh ?S)"
  have n: "ab_MaxChunkSize (backend (opened_engine opened7)) (bstate (fresh ?S)) =
             (2, \<lparr>script = ?S, open_engines = [7]\<rparr>)"
    by (simp add: opened7_def engine7_def fake_backend_def fresh_def)
  have run: "?out =
     (Some (Annotated (Cause Transient) write_retry_format [ArgString ''db.t'', ArgInt 3]), snd ?out)"
    by code_simp
  have tr: "trace (snd ?out) =
     [CallMaxChunkSize 2,
      CallWriteRows (Ctx 0) 7 ''db.t'' [''c''] 99 [1, 2] (Some (Cause Transient)),
      CallWriteRows (Ctx 0) 7 ''db.t'' [''c''] 99 [1, 2] None,
      CallWriteRows (Ctx 0) 7 ''db.t'' [''c''] 99 [3, 4] (Some (Cause Transient)),
      CallWriteRows (Ctx 0) 7 ''db.t'' [''c''] 99 [3, 4] (Some (Cause Transient)),
      CallWriteRows (Ctx 0) 7 ''db.t'' [''c''] 99 [3, 4] (Some (Cause Transient))]"
    by code_simp
  show ?thesis
    by (rule conjI [OF n conjI [OF run conjI [OF tr WriteRows_retries [OF n run]]]])
qed

text \<open>
  Claim C9. When the split of the rows by the backend's maximum chunk size is empty,
  \<^verbatim>\<open>WriteRows\<close> returns \<^verbatim>\<open>nil\<close>, and its only call into the backend is the one
  that asks for the maximum chunk size: the backend's \<^verbatim>\<open>WriteRows\<close> is not called.
\<close>
theorem WriteRows_no_chunks:
  assumes "ab_MaxChunkSize (backend (opened_engine eng)) (bstate w) = (n, s)"
    and "SplitIntoChunks rows n = []"
  shows "WriteRows IsRetryableError SplitIntoChunks eng ctx columnNames rows w =
           (None, w\<lparr>bstate := s, trace := trace w @ [CallMaxChunkSize n]\<rparr>) \<and>
         \<not> is_WriteRows (CallMaxChunkSize n :: ('r, 'e) event)"
  using assms by (simp add: WriteRows_def call_MaxChunkSize_def)

theorem WriteRows_no_chunks_witness:
  "ab_MaxChunkSize (backend (opened_engine opened7)) (bstate (fresh [Some (Cause Permanent)])) =
     (2, \<lparr>script = [Some (Cause Permanent)], open_engines = [7]\<rparr>) \<and>
   chunks_of [] 2 = [] \<and>
   WriteRows retry_transient chunks_of opened7 (Ctx 0) [''c''] [] (fresh [Some (Cause Permanent)]) =
     (None, (fresh [Some (Cause Permanent)])
              \<lparr>bstate := \<lparr>script = [Some (Cause Permanent)], open_engines = [7]\<rparr>,
               trace := trace (fresh [Some (Cause Permanent)]) @ [CallMaxChunkSize 2]\<rparr>) \<and>
   \<not> is_WriteRows (CallMaxChunkSize 2 :: (nat list, fault) event)"
proof -
  have n: "ab_MaxChunkSize (backend (opened_engine opened7)) (bstate (fresh [Some (Cause Permanent)])) =
     (2, \<lparr>script = [Some (Cause Permanent)], open_engines = [7]\<rparr>)"
    by (simp add: opened7_def engine7_def fake_backend_def fresh_def)
  have c: "chunks_of [] 2 = []"
    by simp
  show ?thesis
    by (rule conjI [OF n conjI [OF c
          WriteRows_no_chunks [where SplitIntoChunks = chunks_of and rows = "[]", OF n c]]])
qed

text \<open>
  Claim C10. \<^verbatim>\<open>UnsafeCloseEngine(ctx, tableName, engineID)\<close> returns what
  \<^verbatim>\<open>UnsafeCloseEngineWithUUID(ctx, tag, uuid)\<close> returns for
  \<^verbatim>\<open>(tag, uuid) = MakeUUID(tableName, engineID)\<close>: one call of the backend's
  \<^verbatim>\<open>CloseEngine\<close> on that UUID, and a \<^verbatim>\<open>ClosedEngine\<close> for that engine when the call
  succeeds, \<^verbatim>\<open>nil\<close> and the error when it fails.
\<close>
theorem UnsafeCloseEngine_as_WithUUID:
  assumes "MakeUUID NewSHA1 tbl engineID = (tag, u)"
    and "ab_CloseEngine (abstract be) ctx u (bstate w) = (err, s)"
  shows "UnsafeCloseEngine NewSHA1 be ctx tbl engineID w = UnsafeCloseEngineWithUUID be ctx tag u w \<and>
         UnsafeCloseEngine NewSHA1 be ctx tbl engineID w =
           ((if err = None
             then Some \<lparr>closed_engine =
                          \<lparr>backend = abstract be, logger = makeLogger tag u, uuid = u\<rparr>\<rparr>
             else None, err),
            w\<lparr>bstate := s, trace := trace w @ [CallCloseEngine ctx u err]\<rparr>)"
  using assms
  by (simp add: UnsafeCloseEngine_def UnsafeCloseEngineWithUUID_def unsafeClose_def
      call_CloseEngine_def)

theorem UnsafeCloseEngine_as_WithUUID_witness:
  "MakeUUID sum_hash ''db.t'' 0 = (''db.t:0'', sum_hash engineNamespace ''db.t:0'') \<and>
   ab_CloseEngine (abstract (MakeBackend (fake_backend []))) (Ctx 0)
     (sum_hash engineNamespace ''db.t:0'')
     (bstate (fresh [])) = (None, \<lparr>script = [], open_engines = [7]\<rparr>) \<and>
   UnsafeCloseEngine sum_hash (MakeBackend (fake_backend [])) (Ctx 0) ''db.t'' 0 (fresh []) =
     UnsafeCloseEngineWithUUID (MakeBackend (fake_backend [])) (Ctx 0) ''db.t:0''
       (sum_hash engineNamespace ''db.t:0'') (fresh []) \<and>
   UnsafeCloseEngine sum_hash (MakeBackend (fake_backend [])) (Ctx 0) ''db.t'' 0 (fresh []) =
     ((if (None :: fault error option) = None
       then Some \<lparr>closed_engine =
                    \<lparr>backend = abstract (MakeBackend (fake_backend [])),
                     logger = makeLogger ''db.t:0'' (sum_hash engineNamespace ''db.t:0''),
                     uuid = sum_hash engineNamespace ''db.t:0''\<rparr>\<rparr>
       else None, None),
      (fresh [])\<lparr>bstate := \<lparr>script = [], open_engines = [7]\<rparr>,
                 trace := trace (fresh []) @
                   [CallCloseEngine (Ctx 0) (sum_hash engineNamespace ''db.t:0'') None]\<rparr>)"
proof -
  have m: "MakeUUID sum_hash ''db.t'' 0 = (''db.t:0'', sum_hash engineNamespace ''db.t:0'')"
    by (simp add: MakeUUID_def Let_def makeTag_def format_d_def format_nat.simps digit_char_def)
  have c: "ab_CloseEngine (abstract (MakeBackend (fake_backend []))) (Ctx 0)
     (sum_hash engineNamespace ''db.t:0'')
     (bstate (fresh [])) = (None, \<lparr>script = [], open_engines = [7]\<rparr>)"
    by code_simp
  show ?thesis
    by (rule conjI [OF m conjI [OF c UnsafeCloseEngine_as_WithUUID [OF m c]]])
qed

text \<open>
  The \<^verbatim>\<open>float64\<close> readings: a whole number of magnitude at most \<open>2^53\<close> is read as it is,
  and a larger one as a number of magnitude at least \<open>2^53\<close>.
\<close>

lemma bit_length_bounds: "0 < n \<Longrightarrow> 2 ^ (bit_length n - 1) \<le> n \<and> n < 2 ^ bit_length n"
proof (induction n rule: bit_length.induct)
  case (1 n)
  show ?case
  proof (cases "n div 2 \<le> 0")
    case True
    with "1.prems" have "n = 1" by linarith
    then show ?thesis by (simp add: bit_length.simps [of 1] bit_length.simps [of 0])
  next
    case False
    with "1.IH" "1.prems" have IH: "2 ^ (bit_length (n div 2) - 1) \<le> n div 2"
      "n div 2 < 2 ^ bit_length (n div 2)"
      by simp_all
    from False have pos: "0 < bit_length (n div 2)"
      by (simp add: bit_length.simps [of "n div 2"])
    have bl: "bit_length n = Suc (bit_length (n div 2))"
      using "1.prems" by (simp add: bit_length.simps [of n])
    from pos have "(2::int) ^ bit_length (n div 2) = 2 * 2 ^ (bit_length (n div 2) - 1)"
      by (cases "bit_length (n div 2)") simp_all
    with IH(1) have "2 ^ bit_length (n div 2) \<le> n" by linarith
    moreover from IH(2) have "n < 2 * 2 ^ bit_length (n div 2)" by linarith
    ultimately show ?thesis by (simp add: bl)
  qed
qed

lemma round_float64_exact: "n \<le> 2 ^ 53 \<Longrightarrow> round_float64 n = n"
  by (simp add: round_float64_def)

lemma round_float64_large:
  assumes "2 ^ 53 < n"
  shows "2 ^ 53 \<le> round_float64 n"
proof -
  define e where "e = bit_length n - 53"
  define q where "q = n div 2 ^ e"
  from assms have pos: "0 < n" by simp
  note b = bit_length_bounds [OF pos]
  from b assms have h: "(2::int) ^ 53 < 2 ^ bit_length n" by linarith
  have len: "53 < bit_length n" by (rule power_less_imp_less_exp [OF _ h]) simp
  then have e: "1 \<le> e" "bit_length n - 1 = 52 + e" by (simp_all add: e_def)
  from b e(2) have "2 ^ 52 * 2 ^ e \<le> n" by (simp add: power_add)
  then have "(2 ^ 52 * 2 ^ e) div 2 ^ e \<le> n div 2 ^ e" by (rule zdiv_mono1) simp
  then have q: "2 ^ 52 \<le> q" by (simp add: q_def)
  have "(2::int) ^ 53 = 2 ^ 52 * 2 ^ 1" by simp
  also have "\<dots> \<le> q * 2 ^ e"
  proof (rule mult_mono [OF q])
    show "(2::int) ^ 1 \<le> 2 ^ e" using e(1) by (rule power_increasing) simp
  qed (use q in simp_all)
  finally have lo: "2 ^ 53 \<le> q * 2 ^ e" .
  have r: "round_float64 n = q * 2 ^ e \<or> round_float64 n = (q + 1) * 2 ^ e"
    using assms by (simp add: round_float64_def Let_def e_def q_def)
  have "q * 2 ^ e \<le> (q + 1) * 2 ^ e" by (simp add: distrib_right)
  with lo have up: "2 ^ 53 \<le> (q + 1) * 2 ^ e" by (rule order_trans)
  from r show ?thesis
  proof
    assume "round_float64 n = q * 2 ^ e"
    with lo show ?thesis by (simp only:)
  next
    assume "round_float64 n = (q + 1) * 2 ^ e"
    with up show ?thesis by (simp only:)
  qed
qed

lemma float64_exact: "\<bar>k\<bar> \<le> 2 ^ 53 \<Longrightarrow> float64 k = k"
  by (simp add: float64_def round_float64_exact)

lemma float64_large: "2 ^ 53 < k \<Longrightarrow> 2 ^ 53 \<le> float64 k"
  using round_float64_large [of k] by (simp add: float64_def)

lemma float64_small: "k < - (2 ^ 53) \<Longrightarrow> float64 k \<le> - (2 ^ 53)"
  using round_float64_large [of "- k"] by (simp add: float64_def)

lemma ReadCounter_exact: "c \<le> 2 ^ 53 \<Longrightarrow> ReadCounter c = int c"
proof -
  assume "c \<le> 2 ^ 53"
  then have "int c \<le> int (2 ^ 53)" by (simp only: of_nat_le_iff)
  then have "\<bar>int c\<bar> \<le> 2 ^ 53" by simp
  then show ?thesis unfolding ReadCounter_def by (rule float64_exact)
qed

lemma float64_compare:
  assumes "\<bar>d\<bar> \<le> 2 ^ 53" and "- (2 ^ 53) < d"
  shows "float64 N < d \<longleftrightarrow> N < d"
proof -
  consider "\<bar>N\<bar> \<le> 2 ^ 53" | "2 ^ 53 < N" | "N < - (2 ^ 53)" by linarith
  then show ?thesis
  proof cases
    case 1
    then show ?thesis by (simp only: float64_exact)
  next
    case 2
    from float64_large [OF 2] assms(1) have "\<not> float64 N < d" by linarith
    moreover from 2 assms(1) have "\<not> N < d" by linarith
    ultimately show ?thesis by simp
  next
    case 3
    from float64_small [OF 3] assms(2) have "float64 N < d" by linarith
    moreover from 3 assms(2) have "N < d" by linarith
    ultimately show ?thesis by simp
  qed
qed

text \<open>
  With both counters at most \<open>2^53\<close> the failpoint compares the counts themselves, for
  every injected value.
\<close>

lemma FailIfEngineCountExceeds_exact:
  assumes "0 < openCounter w" and "openCounter w \<le> 2 ^ 53" and "closedCounter w \<le> 2 ^ 53"
  shows "FailIfEngineCountExceeds N w \<longleftrightarrow> N < int (openCounter w) - int (closedCounter w)"
proof -
  define d where "d = int (openCounter w) - int (closedCounter w)"
  from assms(2) have o: "int (openCounter w) \<le> 2 ^ 53"
    using of_nat_le_iff [of "openCounter w" "2 ^ 53", where ?'a = int] by simp
  from assms(3) have c: "int (closedCounter w) \<le> 2 ^ 53"
    using of_nat_le_iff [of "closedCounter w" "2 ^ 53", where ?'a = int] by simp
  from assms(1) have p: "0 < int (openCounter w)" by simp
  from o c p have d: "\<bar>d\<bar> \<le> 2 ^ 53" "- (2 ^ 53) < d"
    unfolding d_def by linarith+
  have "FailIfEngineCountExceeds N w \<longleftrightarrow> float64 N < float64 d"
    by (simp add: FailIfEngineCountExceeds_def Let_def float64_sub_def d_def
        ReadCounter_exact [OF assms(2)] ReadCounter_exact [OF assms(3)])
  also have "float64 d = d" using d(1) by (rule float64_exact)
  also have "float64 N < d \<longleftrightarrow> N < d" using d by (rule float64_compare)
  finally show ?thesis by (simp only: d_def)
qed

text \<open>
  Above \<open>2^53\<close> the readings are rounded: with \<open>2^53 + 1\<close> engines opened and
  \<open>2^53 - 4\<close> closed the counts differ by 5, the readings by 4, and the failpoint with
  the value 4 does not panic.
\<close>

lemma FailIfEngineCountExceeds_rounds:
  assumes "openCounter w = 2 ^ 53 + 1" and "closedCounter w = 2 ^ 53 - 4"
  shows "int (openCounter w) - int (closedCounter w) = 5 \<and> \<not> FailIfEngineCountExceeds 4 w"
proof -
  have a: "float64 9007199254740993 = 9007199254740992"
    by code_simp
  have b: "float64 9007199254740988 = 9007199254740988"
    by code_simp
  have c: "float64 4 = 4"
    by code_simp
  show ?thesis
    by (simp add: FailIfEngineCountExceeds_def ReadCounter_def float64_sub_def assms a b c)
qed

lemma OpenEngine_panics_iff:
  assumes "MakeUUID NewSHA1 tbl engineID = (tag, u)"
    and "call_OpenEngine (abstract be) ctx u w = (err, w1)"
    and "OpenEngine NewSHA1 (Some N) composedTS be ctx tbl engineID w = (out, w')"
  shows "(is_Panics out \<longleftrightarrow> err = None \<and> FailIfEngineCountExceeds N w') \<and>
         (err = None \<longrightarrow>
            openCounter w' = openCounter w + 1 \<and> closedCounter w' = closedCounter w)"
proof (cases err)
  case (Some e)
  with assms have "out = Returns (None, err)"
    by (simp add: OpenEngine_def)
  with Some show ?thesis by simp
next
  case None
  from assms(2) have c: "openCounter w1 = openCounter w" "closedCounter w1 = closedCounter w"
    by (auto simp: call_OpenEngine_def split: prod.splits)
  from assms None have w': "w' = w1\<lparr>openCounter := openCounter w1 + 1\<rparr>"
    by (simp add: OpenEngine_def Let_def split: if_splits)
  have "is_Panics out \<longleftrightarrow> FailIfEngineCountExceeds N w'"
    using assms None by (simp add: OpenEngine_def Let_def w' split: if_splits) auto
  then show ?thesis
    using c None by (simp add: w')
qed

text \<open>
  Claim C7. With the failpoint \<^verbatim>\<open>FailIfEngineCountExceeds\<close> enabled with the value
  \<open>N\<close>, \<^verbatim>\<open>OpenEngine\<close> panics exactly when the backend has opened the engine and the
  open counter minus the closed counter is strictly greater than \<open>N\<close>; it does not panic
  when the difference is \<open>N\<close> or less. The counters are read after the open counter was
  incremented for this engine. The code compares the \<^verbatim>\<open>float64\<close> readings of the
  counters with \<^verbatim>\<open>float64(N)\<close>; the statement is for counters that are at most \<open>2^53\<close>
  when they are read, and for every \<open>N\<close>.
\<close>
theorem OpenEngine_guard:
  assumes "MakeUUID NewSHA1 tbl engineID = (tag, u)"
    and "call_OpenEngine (abstract be) ctx u w = (err, w1)"
    and "OpenEngine NewSHA1 (Some N) composedTS be ctx tbl engineID w = (out, w')"
    and "openCounter w < 2 ^ 53"
    and "closedCounter w \<le> 2 ^ 53"
  shows "(is_Panics out \<longleftrightarrow>
            err = None \<and> int (openCounter w') - int (closedCounter w') > N) \<and>
         (err = None \<longrightarrow>
            openCounter w' = openCounter w + 1 \<and> closedCounter w' = closedCounter w)"
proof (cases err)
  case (Some e)
  with OpenEngine_panics_iff [OF assms(1-3)] show ?thesis by simp
next
  case None
  note p = OpenEngine_panics_iff [OF assms(1-3)]
  from p None have cnt: "openCounter w' = openCounter w + 1" "closedCounter w' = closedCounter w"
    by simp_all
  from cnt assms(4) have o: "0 < openCounter w'" "openCounter w' \<le> 2 ^ 53"
    by simp_all
  from cnt assms(5) have c: "closedCounter w' \<le> 2 ^ 53"
    by simp
  from p FailIfEngineCountExceeds_exact [OF o c, of N] cnt None show ?thesis
    by simp
qed

theorem OpenEngine_guard_witness:
  "MakeUUID sum_hash ''db.t'' 0 = (''db.t:0'', sum_hash engineNamespace ''db.t:0'') \<and>
   call_OpenEngine (abstract (MakeBackend (fake_backend []))) (Ctx 0)
     (sum_hash engineNamespace ''db.t:0'') ((fresh [])\<lparr>openCounter := 4\<rparr>) =
     (None, snd (call_OpenEngine (abstract (MakeBackend (fake_backend []))) (Ctx 0)
                   (sum_hash engineNamespace ''db.t:0'') ((fresh [])\<lparr>openCounter := 4\<rparr>))) \<and>
   is_Panics (fst (OpenEngine sum_hash (Some 4) 99 (MakeBackend (fake_backend [])) (Ctx 0) ''db.t'' 0
                     ((fresh [])\<lparr>openCounter := 4\<rparr>))) \<and>
   \<not> is_Panics (fst (OpenEngine sum_hash (Some 5) 99 (MakeBackend (fake_backend [])) (Ctx 0) ''db.t'' 0
                       ((fresh [])\<lparr>openCounter := 4\<rparr>))) \<and>
   openCounter (snd (OpenEngine sum_hash (Some 4) 99 (MakeBackend (fake_backend [])) (Ctx 0) ''db.t'' 0
                       ((fresh [])\<lparr>openCounter := 4\<rparr>))) = 5 \<and>
   closedCounter (snd (OpenEngine sum_hash (Some 4) 99 (MakeBackend (fake_backend [])) (Ctx 0) ''db.t'' 0
                       ((fresh [])\<lparr>openCounter := 4\<rparr>))) = 0 \<and>
   openCounter ((fresh [])\<lparr>openCounter := 4\<rparr>) < 2 ^ 53 \<and>
   closedCounter ((fresh [])\<lparr>openCounter := 4\<rparr>) \<le> 2 ^ 53"
proof -
  let ?be = "MakeBackend (fake_backend [])"
  let ?w = "(fresh [])\<lparr>openCounter := 4\<rparr>"
  let ?u = "sum_hash engineNamespace ''db.t:0''"
  let ?out4 = "OpenEngine sum_hash (Some 4) 99 ?be (Ctx 0) ''db.t'' 0 ?w"
  let ?out5 = "OpenEngine sum_hash (Some 5) 99 ?be (Ctx 0) ''db.t'' 0 ?w"
  have m: "MakeUUID sum_hash ''db.t'' 0 = (''db.t:0'', ?u)"
    by (simp add: MakeUUID_def Let_def makeTag_def format_d_def format_nat.simps digit_char_def)
  have c: "call_OpenEngine (abstract ?be) (Ctx 0) ?u ?w =
             (None, snd (call_OpenEngine (abstract ?be) (Ctx 0) ?u ?w))"
    by (simp add: call_OpenEngine_def MakeBackend_def fake_backend_def fake_open_def answer_def
        fresh_def)
  have w: "openCounter ?w = 4" "closedCounter ?w = 0"
    by (simp_all add: fresh_def)
  have r4: "?out4 = (fst ?out4, snd ?out4)" and r5: "?out5 = (fst ?out5, snd ?out5)"
    by simp_all
  have b: "openCounter ?w < 2 ^ 53" "closedCounter ?w \<le> 2 ^ 53"
    by (simp_all add: fresh_def)
  note g4 = OpenEngine_guard [OF m c r4 b] and g5 = OpenEngine_guard [OF m c r5 b]
  from g4 w have o4: "openCounter (snd ?out4) = 5" and c4: "closedCounter (snd ?out4) = 0"
    by simp_all
  with g4 have p4: "is_Panics (fst ?out4)"
    by simp
  from g5 w have "openCounter (snd ?out5) = 5" and "closedCounter (snd ?out5) = 0"
    by simp_all
  with g5 have p5: "\<not> is_Panics (fst ?out5)"
    by simp
  show ?thesis
    by (rule conjI [OF m conjI [OF c conjI [OF p4 conjI [OF p5 conjI [OF o4 conjI [OF c4
          conjI [OF b]]]]]]])
qed

end
